theory Spec2Isabelle
  imports Complex_Main
begin

section \<open>The training script (train.py)\<close>

subsection \<open>Exceptions and the library interface\<close>

text \<open>
  Python exceptions are values.  \<open>RuntimeError\<close> stands for the class the guard of the script
  names (and its subclasses); every class the script does not name is an \<open>OtherError\<close>
  carrying its class name.
\<close>

datatype exn = RuntimeError | IndexError | ZeroDivisionError | OtherError string

text \<open>
  The script calls the tensor library for everything numeric.  These calls are parameters of
  the model: \<open>'m\<close> is the mutable state of the model object together with its optimizer and
  scheduler, \<open>'x\<close> and \<open>'y\<close> are the inputs and targets of a batch, \<open>'o\<close> the model's output.
  Every call may raise.  Loss and accuracy values are idealised as real numbers.

  \<^item> \<open>model_call training m X\<close> is \<^verbatim>\<open>model(X)\<close>, in training mode (after \<^verbatim>\<open>model.train()\<close>)
    or in evaluation mode (after \<^verbatim>\<open>model.eval()\<close>);
  \<^item> \<open>loss_fn o y\<close> is \<^verbatim>\<open>loss_fn(y_logits.unsqueeze(2), y).item()\<close>;
  \<^item> \<open>acc_fn o y\<close> is \<^verbatim>\<open>acc_fn(y_logits.unsqueeze(2), y)\<close>;
  \<^item> \<open>backward_step m X y\<close> is \<^verbatim>\<open>optimizer.zero_grad(); loss.backward(); optimizer.step()\<close>;
  \<^item> \<open>scheduler_step m l\<close> is \<^verbatim>\<open>scheduler.step(l)\<close>.
\<close>

record ('m, 'x, 'y, 'o) torch_env =
  model_call :: "bool \<Rightarrow> 'm \<Rightarrow> 'x \<Rightarrow> exn + 'o"
  loss_fn :: "'o \<Rightarrow> 'y \<Rightarrow> exn + real"
  acc_fn :: "'o \<Rightarrow> 'y \<Rightarrow> exn + real"
  backward_step :: "'m \<Rightarrow> 'x \<Rightarrow> 'y \<Rightarrow> exn + 'm"
  scheduler_step :: "'m \<Rightarrow> real \<Rightarrow> exn + 'm"

text \<open>
  A data loader is the sequence of batches one pass over it yields; fetching a batch may
  raise.  Its \<^verbatim>\<open>len\<close> is the number of batches.
\<close>

type_synonym ('x, 'y) data_loader = "(exn + 'x \<times> 'y) list"

subsection \<open>train_step and test_step\<close>

text \<open>
  The loop of \<^verbatim>\<open>train_step\<close> over the batches; the accumulator is
  \<open>(train_loss, train_acc)\<close>, the model state is updated after every batch.
\<close>

fun train_batches ::
  "('m, 'x, 'y, 'o) torch_env \<Rightarrow> 'm \<Rightarrow> ('x, 'y) data_loader \<Rightarrow> real \<times> real
    \<Rightarrow> exn + 'm \<times> real \<times> real" where
  "train_batches env m [] acc = Inr (m, acc)"
| "train_batches env m (Inl e # bs) acc = Inl e"
| "train_batches env m (Inr (X, y) # bs) (tr_loss, tr_acc) =
     (case model_call env True m X of Inl e \<Rightarrow> Inl e | Inr y_logits \<Rightarrow>
       (case loss_fn env y_logits y of Inl e \<Rightarrow> Inl e | Inr loss \<Rightarrow>
         (case acc_fn env y_logits y of Inl e \<Rightarrow> Inl e | Inr a \<Rightarrow>
           (case backward_step env m X y of Inl e \<Rightarrow> Inl e | Inr m' \<Rightarrow>
              train_batches env m' bs (tr_loss + loss, tr_acc + a)))))"

text \<open>
  The averages divide by \<^verbatim>\<open>len(data_loader)\<close>: on an empty loader the accumulated
  loss is still the integer 0, and Python raises ZeroDivisionError.
\<close>

definition train_step ::
  "('m, 'x, 'y, 'o) torch_env \<Rightarrow> 'm \<Rightarrow> ('x, 'y) data_loader \<Rightarrow> exn + 'm \<times> real \<times> real" where
  "train_step env m data_loader =
     (case train_batches env m data_loader (0, 0) of
        Inl e \<Rightarrow> Inl e
      | Inr (m', tr_loss, tr_acc) \<Rightarrow>
          if length data_loader = 0 then Inl ZeroDivisionError
          else Inr (m', tr_loss / real (length data_loader), tr_acc / real (length data_loader)))"

fun test_batches ::
  "('m, 'x, 'y, 'o) torch_env \<Rightarrow> 'm \<Rightarrow> ('x, 'y) data_loader \<Rightarrow> real \<times> real
    \<Rightarrow> exn + real \<times> real" where
  "test_batches env m [] acc = Inr acc"
| "test_batches env m (Inl e # bs) acc = Inl e"
| "test_batches env m (Inr (X, y) # bs) (te_loss, te_acc) =
     (case model_call env False m X of Inl e \<Rightarrow> Inl e | Inr y_logits \<Rightarrow>
       (case loss_fn env y_logits y of Inl e \<Rightarrow> Inl e | Inr loss \<Rightarrow>
         (case acc_fn env y_logits y of Inl e \<Rightarrow> Inl e | Inr a \<Rightarrow>
            test_batches env m bs (te_loss + loss, te_acc + a))))"

definition test_step ::
  "('m, 'x, 'y, 'o) torch_env \<Rightarrow> 'm \<Rightarrow> ('x, 'y) data_loader \<Rightarrow> exn + real \<times> real" where
  "test_step env m data_loader =
     (case test_batches env m data_loader (0, 0) of
        Inl e \<Rightarrow> Inl e
      | Inr (te_loss, te_acc) \<Rightarrow>
          if length data_loader = 0 then Inl ZeroDivisionError
          else Inr (te_loss / real (length data_loader), te_acc / real (length data_loader)))"

subsection \<open>train\<close>

text \<open>The results dictionary: four keys, each mapped to a list.\<close>

record results =
  train_loss :: "real list"
  test_loss :: "real list"
  train_acc :: "real list"
  test_acc :: "real list"

text \<open>The four numbers an epoch computes.\<close>

record metrics =
  m_train_loss :: real
  m_test_loss :: real
  m_train_acc :: real
  m_test_acc :: real

text \<open>
  What the script prints.  The status line of \<^verbatim>\<open>train\<close> carries the four numbers it
  formats; the other three lines are the fixed messages of the main block.
\<close>

datatype console_line =
  StatusLine metrics
  | LoadedMsg
  | MismatchMsg
  | SavedMsg

text \<open>
  The state of a call of \<^verbatim>\<open>train\<close> besides the model: the local \<open>results\<close>, the console,
  and a history variable that records, for every epoch whose train step, test step and
  scheduler step have run, its index and its four numbers.  The history is not read by the
  code; it is what the statements about executed epochs refer to.
\<close>

record run_state =
  results :: results
  console :: "console_line list"
  history :: "(int \<times> metrics) list"

text \<open>
  A call either returns (with the model state it leaves) or raises; the run state of a
  raising call is the one at the head of the iteration that raised, since nothing is
  printed or appended before the three steps of an epoch are through.
\<close>

datatype 'm outcome = Returned 'm run_state | Raised exn run_state

fun final :: "'m outcome \<Rightarrow> run_state" where
  "final (Returned m st) = st"
| "final (Raised e st) = st"

definition append_results :: "results \<Rightarrow> metrics \<Rightarrow> results" where
  "append_results r mt =
     \<lparr>train_loss = train_loss r @ [m_train_loss mt],
      test_loss = test_loss r @ [m_test_loss mt],
      train_acc = train_acc r @ [m_train_acc mt],
      test_acc = test_acc r @ [m_test_acc mt]\<rparr>"

text \<open>
  The epoch loop, over the remaining epoch indices.  The order is the source's: train step,
  test step, scheduler step, the early-stopping test (\<^verbatim>\<open>break\<close>), the status line on
  epochs divisible by 10, the four appends.
\<close>

fun train_loop ::
  "('m, 'x, 'y, 'o) torch_env \<Rightarrow> ('x, 'y) data_loader \<Rightarrow> ('x, 'y) data_loader
    \<Rightarrow> 'm \<Rightarrow> run_state \<Rightarrow> int list \<Rightarrow> 'm outcome" where
  "train_loop env train_dataloader test_dataloader m st [] = Returned m st"
| "train_loop env train_dataloader test_dataloader m st (epoch # rest) =
     (case train_step env m train_dataloader of Inl e \<Rightarrow> Raised e st
      | Inr (m1, tr_loss, tr_acc) \<Rightarrow>
     (case test_step env m1 test_dataloader of Inl e \<Rightarrow> Raised e st
      | Inr (te_loss, te_acc) \<Rightarrow>
     (case scheduler_step env m1 te_loss of Inl e \<Rightarrow> Raised e st
      | Inr m2 \<Rightarrow>
        let mt = \<lparr>m_train_loss = tr_loss, m_test_loss = te_loss,
                  m_train_acc = tr_acc, m_test_acc = te_acc\<rparr>;
            st1 = st\<lparr>history := history st @ [(epoch, mt)]\<rparr>
        in if te_loss < 7 then Returned m2 st1
           else
             let st2 = (if epoch mod 10 = 0
                        then st1\<lparr>console := console st1 @ [StatusLine mt]\<rparr> else st1)
             in train_loop env train_dataloader test_dataloader m2
                  (st2\<lparr>results := append_results (results st2) mt\<rparr>) rest)))"

definition empty_results :: results where
  "empty_results = \<lparr>train_loss = [], test_loss = [], train_acc = [], test_acc = []\<rparr>"

text \<open>
  \<^verbatim>\<open>train\<close>: a fresh results dictionary, then the loop over \<^verbatim>\<open>range(epochs)\<close>.  The console
  is the one the caller has printed to so far.
\<close>

definition train ::
  "('m, 'x, 'y, 'o) torch_env \<Rightarrow> 'm \<Rightarrow> int \<Rightarrow> ('x, 'y) data_loader \<Rightarrow> ('x, 'y) data_loader
    \<Rightarrow> console_line list \<Rightarrow> 'm outcome" where
  "train env m epochs train_dataloader test_dataloader out =
     train_loop env train_dataloader test_dataloader m
       \<lparr>results = empty_results, console = out, history = []\<rparr> [0..epochs - 1]"

text \<open>
  The early-stopping test and the test for a status line, on a history entry; whether a call
  returned; whether the four lists of a results dictionary have one length.
\<close>

definition stops :: "int \<times> metrics \<Rightarrow> bool" where
  "stops h = (m_test_loss (snd h) < 7)"

definition prints :: "int \<times> metrics \<Rightarrow> bool" where
  "prints h = (fst h mod 10 = 0 \<and> \<not> stops h)"

fun returned :: "'m outcome \<Rightarrow> bool" where
  "returned (Returned m st) = True"
| "returned (Raised e st) = False"

definition equal_lengths :: "results \<Rightarrow> bool" where
  "equal_lengths r = (length (test_loss r) = length (train_loss r)
     \<and> length (train_acc r) = length (train_loss r)
     \<and> length (test_acc r) = length (train_loss r))"

text \<open>
  A small concrete instance of the library interface, for running the loop on numbers: the
  model state is its current loss, every optimizer step lowers it by one, and the accuracy
  is ten minus the loss.  The loader yields one batch.
\<close>

definition demo_env :: "(real, unit, unit, real) torch_env" where
  "demo_env =
     \<lparr>model_call = (\<lambda>training m X. Inr m),
      loss_fn = (\<lambda>y_logits y. Inr y_logits),
      acc_fn = (\<lambda>y_logits y. Inr (10 - y_logits)),
      backward_step = (\<lambda>m X y. Inr (m - 1)),
      scheduler_step = (\<lambda>m l. Inr m)\<rparr>"

definition demo_loader :: "(unit, unit) data_loader" where
  "demo_loader = [Inr ((), ())]"

subsection \<open>The main block\<close>












section \<open>The model (models/SegRNN.py)\<close>

subsection \<open>Tensors and the tensor operations the model uses\<close>

text \<open>
  A tensor is its shape together with its entries in row-major order; a permuted tensor is
  stored in the order of its new shape.  The entries are of any type that has zero, one,
  addition, subtraction, multiplication and an order; no law of arithmetic is assumed of
  these operations, so what is proved below holds for rounding arithmetic such as float32
  as it does for exact numbers.  \<open>numel\<close> is the number of entries the shape announces.
\<close>

record 'a tensor =
  shape :: "nat list"
  data :: "'a list"

definition numel :: "'a tensor \<Rightarrow> nat" where
  "numel t = prod_list (shape t)"

text \<open>
  The position of entry \<open>[i, j, l]\<close> in a tensor whose last two dimensions are \<open>b\<close> and \<open>c\<close>,
  and the tensor of shape \<open>[a, b, c]\<close> with a given entry at every index.
\<close>

definition idx3 :: "nat \<Rightarrow> nat \<Rightarrow> nat \<Rightarrow> nat \<Rightarrow> nat \<Rightarrow> nat" where
  "idx3 b c i j l = (i * b + j) * c + l"

definition mk3 :: "nat \<Rightarrow> nat \<Rightarrow> nat \<Rightarrow> (nat \<Rightarrow> nat \<Rightarrow> nat \<Rightarrow> 'a) \<Rightarrow> 'a tensor" where
  "mk3 a b c f =
     \<lparr>shape = [a, b, c],
      data = map (\<lambda>k. f (k div (b * c)) (k div c mod b) (k mod c)) [0..<a * b * c]\<rparr>"

text \<open>Row \<open>r\<close> of a tensor read as rows of width \<open>w\<close>: the vectors along its last dimension.\<close>

definition row :: "nat \<Rightarrow> 'a tensor \<Rightarrow> nat \<Rightarrow> 'a list" where
  "row w t r = map (\<lambda>l. data t ! (r * w + l)) [0..<w]"

text \<open>
  \<^verbatim>\<open>x[:, -1:, :]\<close> on a tensor of three dimensions: the last step along dimension 1, kept
  as a dimension of size 1 (of size 0 when there is no step).  Fewer dimensions than
  indices raise IndexError.
\<close>

definition select_last :: "'a tensor \<Rightarrow> exn + 'a tensor" where
  "select_last x =
     (case shape x of
        [b, s, c] \<Rightarrow> Inr (mk3 b (min s 1) c (\<lambda>i j l. data x ! idx3 s c i (s - 1) l))
      | _ \<Rightarrow> Inl IndexError)"

text \<open>
  Broadcasting of one dimension: equal sizes, or one of them 1.  An elementwise binary
  operation on two tensors of three dimensions broadcasts every dimension, and raises
  RuntimeError when a pair of sizes does not fit.  (The model applies it to tensors of
  three dimensions only.)
\<close>

definition broadcast_dim :: "nat \<Rightarrow> nat \<Rightarrow> nat option" where
  "broadcast_dim a b =
     (if a = b then Some a else if a = 1 then Some b else if b = 1 then Some a else None)"

definition broadcast3 :: "('a \<Rightarrow> 'a \<Rightarrow> 'a) \<Rightarrow> 'a tensor \<Rightarrow> 'a tensor \<Rightarrow> exn + 'a tensor" where
  "broadcast3 f t u =
     (case (shape t, shape u) of
        ([a1, a2, a3], [b1, b2, b3]) \<Rightarrow>
          (case (broadcast_dim a1 b1, broadcast_dim a2 b2, broadcast_dim a3 b3) of
             (Some d1, Some d2, Some d3) \<Rightarrow>
               Inr (mk3 d1 d2 d3 (\<lambda>i j l.
                 f (data t ! idx3 a2 a3 (if a1 = 1 then 0 else i) (if a2 = 1 then 0 else j)
                      (if a3 = 1 then 0 else l))
                   (data u ! idx3 b2 b3 (if b1 = 1 then 0 else i) (if b2 = 1 then 0 else j)
                      (if b3 = 1 then 0 else l))))
           | _ \<Rightarrow> Inl RuntimeError)
      | _ \<Rightarrow> Inl RuntimeError)"

text \<open>\<^verbatim>\<open>permute(0, 2, 1)\<close>: three dimensions are required.\<close>

definition permute021 :: "'a tensor \<Rightarrow> exn + 'a tensor" where
  "permute021 t =
     (case shape t of
        [a, b, c] \<Rightarrow> Inr (mk3 a c b (\<lambda>i j l. data t ! idx3 b c i l j))
      | _ \<Rightarrow> Inl RuntimeError)"

text \<open>
  \<^verbatim>\<open>reshape\<close> and \<^verbatim>\<open>view\<close> with one dimension given as \<open>-1\<close>, between the dimensions \<open>pre\<close>
  and \<open>post\<close>: the entries stay in their order; the free dimension is the number of entries
  divided by the product of the given ones, which must be positive and divide that number,
  else RuntimeError.  (Every \<^verbatim>\<open>view\<close> of the model is applied to a tensor stored in the
  order of its shape, so \<^verbatim>\<open>view\<close> and \<^verbatim>\<open>reshape\<close> do not differ here.)
\<close>

definition view_infer :: "nat list \<Rightarrow> nat list \<Rightarrow> 'a tensor \<Rightarrow> exn + 'a tensor" where
  "view_infer pre post t =
     (let known = prod_list (pre @ post)
      in if 0 < known \<and> numel t mod known = 0
         then Inr (t\<lparr>shape := pre @ [numel t div known] @ post\<rparr>)
         else Inl RuntimeError)"

text \<open>\<^verbatim>\<open>unsqueeze(k)\<close>: a dimension of size 1 is inserted at position \<open>k\<close>.\<close>

definition unsqueeze :: "nat \<Rightarrow> 'a tensor \<Rightarrow> 'a tensor" where
  "unsqueeze k t = t\<lparr>shape := take k (shape t) @ [1] @ drop k (shape t)\<rparr>"

text \<open>
  \<^verbatim>\<open>repeat(r1, r2, r3)\<close>: a tensor of fewer than three dimensions is read with leading
  dimensions of size 1, one of more dimensions raises RuntimeError; every dimension is
  tiled the given number of times.
\<close>

definition repeat3 :: "nat \<Rightarrow> nat \<Rightarrow> nat \<Rightarrow> 'a tensor \<Rightarrow> exn + 'a tensor" where
  "repeat3 r1 r2 r3 t =
     (case replicate (3 - length (shape t)) 1 @ shape t of
        [a, b, c] \<Rightarrow>
          Inr (mk3 (a * r1) (b * r2) (c * r3)
                 (\<lambda>i j l. data t ! idx3 b c (i mod a) (j mod b) (l mod c)))
      | _ \<Rightarrow> Inl RuntimeError)"

text \<open>
  \<^verbatim>\<open>torch.cat([t, u], dim=-1)\<close> on tensors of three dimensions: the leading two dimensions
  must agree.
\<close>

definition cat_last :: "'a tensor \<Rightarrow> 'a tensor \<Rightarrow> exn + 'a tensor" where
  "cat_last t u =
     (case (shape t, shape u) of
        ([a, b, c1], [a', b', c2]) \<Rightarrow>
          if a = a' \<and> b = b'
          then Inr (mk3 a b (c1 + c2) (\<lambda>i j l.
                 if l < c1 then data t ! idx3 b c1 i j l else data u ! idx3 b c2 i j (l - c1)))
          else Inl RuntimeError
      | _ \<Rightarrow> Inl RuntimeError)"

subsection \<open>Layers\<close>

text \<open>
  A linear layer \<^verbatim>\<open>nn.Linear(in_f, out_f)\<close> holds a weight matrix and a bias vector, here
  as functions of the indices.  It maps every vector along the last dimension, which must
  have size \<open>in_f\<close>.
\<close>

record 'a linear_params =
  weight :: "nat \<Rightarrow> nat \<Rightarrow> 'a"
  bias :: "nat \<Rightarrow> 'a"

definition dot :: "(nat \<Rightarrow> 'a::{zero,one,plus,minus,times,ord}) \<Rightarrow> 'a list \<Rightarrow> nat \<Rightarrow> 'a" where
  "dot w v n = foldl (\<lambda>acc q. acc + w q * v ! q) 0 [0..<n]"

definition linear_vec ::
  "nat \<Rightarrow> nat \<Rightarrow> 'a linear_params \<Rightarrow> 'a list \<Rightarrow> ('a::{zero,one,plus,minus,times,ord}) list" where
  "linear_vec in_f out_f p v = map (\<lambda>k. dot (weight p k) v in_f + bias p k) [0..<out_f]"

definition Linear ::
  "nat \<Rightarrow> nat \<Rightarrow> 'a linear_params \<Rightarrow> 'a tensor \<Rightarrow> exn + ('a::{zero,one,plus,minus,times,ord}) tensor" where
  "Linear in_f out_f p t =
     (if shape t \<noteq> [] \<and> last (shape t) = in_f
      then Inr \<lparr>shape = butlast (shape t) @ [out_f],
                data = concat (map (\<lambda>r. linear_vec in_f out_f p (row in_f t r))
                                 [0..<prod_list (butlast (shape t))])\<rparr>
      else Inl RuntimeError)"

definition relu :: "('a::{zero,one,plus,minus,times,ord}) tensor \<Rightarrow> 'a tensor" where
  "relu t = t\<lparr>data := map (max 0) (data t)\<rparr>"

text \<open>
  Dropout multiplies every entry by the multiplier drawn for its position: \<open>msk k\<close> for the
  entry at position \<open>k\<close>.  In evaluation mode every multiplier is 1.
\<close>

definition apply_dropout :: "(nat \<Rightarrow> 'a) \<Rightarrow> 'a tensor \<Rightarrow> ('a::{zero,one,plus,minus,times,ord}) tensor" where
  "apply_dropout msk t = t\<lparr>data := map (\<lambda>k. msk k * data t ! k) [0..<numel t]\<rparr>"

text \<open>
  A GRU layer \<^verbatim>\<open>nn.GRU(input_size, hidden_size, num_layers=1, bias=True, batch_first=True)\<close>:
  the input and hidden weights and biases of the reset, update and new gates, stacked in
  this order, and the two activation functions of the cell (on the reals, the logistic
  function and the hyperbolic tangent).
\<close>

record 'a gru_params =
  weight_ih :: "nat \<Rightarrow> nat \<Rightarrow> 'a"
  weight_hh :: "nat \<Rightarrow> nat \<Rightarrow> 'a"
  bias_ih :: "nat \<Rightarrow> 'a"
  bias_hh :: "nat \<Rightarrow> 'a"
  act_sigmoid :: "'a \<Rightarrow> 'a"
  act_tanh :: "'a \<Rightarrow> 'a"

definition gru_cell ::
  "nat \<Rightarrow> nat \<Rightarrow> 'a gru_params \<Rightarrow> 'a list \<Rightarrow> 'a list \<Rightarrow> ('a::{zero,one,plus,minus,times,ord}) list" where
  "gru_cell d_in d p x h =
     map (\<lambda>k.
       let r = act_sigmoid p (dot (weight_ih p k) x d_in + bias_ih p k
                 + dot (weight_hh p k) h d + bias_hh p k);
           z = act_sigmoid p (dot (weight_ih p (d + k)) x d_in + bias_ih p (d + k)
                 + dot (weight_hh p (d + k)) h d + bias_hh p (d + k));
           n = act_tanh p (dot (weight_ih p (2 * d + k)) x d_in + bias_ih p (2 * d + k)
                 + r * (dot (weight_hh p (2 * d + k)) h d + bias_hh p (2 * d + k)))
       in (1 - z) * n + z * h ! k) [0..<d]"

text \<open>
  The layer on a batch-first input \<open>[B, n, d_in]\<close> with an initial hidden state \<open>[1, B, d]\<close>
  (zeros when none is given): the final hidden state \<open>[1, B, d]\<close> of every sequence of the
  batch; the model uses nothing else of the layer's result.  A wrong input size or
  hidden-state shape raises RuntimeError.  (The model passes inputs of three dimensions
  only.)
\<close>

definition gru ::
  "nat \<Rightarrow> nat \<Rightarrow> 'a gru_params \<Rightarrow> 'a tensor \<Rightarrow> 'a tensor option
    \<Rightarrow> exn + ('a::{zero,one,plus,minus,times,ord}) tensor" where
  "gru d_in d p inp hx =
     (case shape inp of
        [B, n, f] \<Rightarrow>
          let h0 = (case hx of None \<Rightarrow> mk3 1 B d (\<lambda>i j l. 0) | Some h \<Rightarrow> h)
          in if f = d_in \<and> shape h0 = [1, B, d]
             then Inr \<lparr>shape = [1, B, d],
                       data = concat (map (\<lambda>r.
                                foldl (\<lambda>h t. gru_cell d_in d p (row d_in inp (r * n + t)) h)
                                  (row d h0 r) [0..<n]) [0..<B])\<rparr>
             else Inl RuntimeError
      | _ \<Rightarrow> Inl RuntimeError)"

subsection \<open>The SegRNN module\<close>

text \<open>The fields of \<^verbatim>\<open>configs\<close> the constructor reads.\<close>

record 'a configs =
  seq_len :: nat
  pred_len :: nat
  enc_in :: nat
  d_model :: nat
  dropout :: 'a
  seg_len :: nat

text \<open>
  The module: the configuration, the two segment counts, and the parameters of the layers.
\<close>

record 'a SegRNN = "'a configs" +
  seg_num_x :: nat
  seg_num_y :: nat
  valueEmbedding :: "'a linear_params"
  rnn :: "'a gru_params"
  pos_emb :: "'a tensor"
  channel_emb :: "'a tensor"
  predict :: "'a linear_params"

text \<open>
  The values the parameters are created with (random in the source); the two embedding
  tables by position in row-major order.
\<close>

record 'a init_values =
  valueEmbedding_init :: "'a linear_params"
  rnn_init :: "'a gru_params"
  pos_emb_init :: "nat \<Rightarrow> 'a"
  channel_emb_init :: "nat \<Rightarrow> 'a"
  predict_init :: "'a linear_params"

text \<open>
  The constructor.  The two integer divisions raise ZeroDivisionError when \<open>seg_len\<close> is 0.
  The shapes of all parameters are fixed here: the embedding tables are
  \<open>[seg_num_y, d_model // 2]\<close> and \<open>[enc_in, d_model // 2]\<close>.  The argument checks of the
  library's layer constructors are not modelled.
\<close>

definition SegRNN_init :: "'a configs \<Rightarrow> 'a init_values \<Rightarrow> exn + 'a SegRNN" where
  "SegRNN_init cfg iv =
     (if seg_len cfg = 0 then Inl ZeroDivisionError
      else Inr \<lparr>seq_len = seq_len cfg, pred_len = pred_len cfg, enc_in = enc_in cfg,
                d_model = d_model cfg, dropout = dropout cfg, seg_len = seg_len cfg,
                seg_num_x = seq_len cfg div seg_len cfg,
                seg_num_y = pred_len cfg div seg_len cfg,
                valueEmbedding = valueEmbedding_init iv,
                rnn = rnn_init iv,
                pos_emb = \<lparr>shape = [pred_len cfg div seg_len cfg, d_model cfg div 2],
                           data = map (pos_emb_init iv)
                             [0..<(pred_len cfg div seg_len cfg) * (d_model cfg div 2)]\<rparr>,
                channel_emb = \<lparr>shape = [enc_in cfg, d_model cfg div 2],
                               data = map (channel_emb_init iv)
                                 [0..<enc_in cfg * (d_model cfg div 2)]\<rparr>,
                predict = predict_init iv\<rparr>)"

text \<open>
  Sequencing of steps that may raise: the first exception ends the computation.
\<close>

definition and_then :: "exn + 'a \<Rightarrow> ('a \<Rightarrow> exn + 'b) \<Rightarrow> exn + 'b" where
  "and_then r f = (case r of Inl e \<Rightarrow> Inl e | Inr v \<Rightarrow> f v)"

text \<open>
  \<^verbatim>\<open>forward\<close>, statement by statement.  \<open>msk\<close> holds the dropout multipliers of this call.
  An input of fewer than three dimensions fails at \<^verbatim>\<open>x[:, -1:, :]\<close> (or at \<^verbatim>\<open>x.size(0)\<close>)
  with IndexError, one of more than three at \<^verbatim>\<open>permute(0, 2, 1)\<close> with RuntimeError.
\<close>

definition forward :: "'a SegRNN \<Rightarrow> (nat \<Rightarrow> 'a) \<Rightarrow> 'a tensor \<Rightarrow> exn + ('a::{zero,one,plus,minus,times,ord}) tensor" where
  "forward self msk x =
     (case shape x of
        [batch_size, s, c] \<Rightarrow>
          and_then (select_last x) (\<lambda>seq_last.
          and_then (broadcast3 (-) x seq_last) (\<lambda>xn.
          and_then (permute021 xn) (\<lambda>xp.
          and_then (view_infer [] [seg_num_x self, seg_len self] xp) (\<lambda>xs.
          and_then (Linear (seg_len self) (d_model self) (valueEmbedding self) xs) (\<lambda>xl.
          and_then (gru (d_model self) (d_model self) (rnn self) (relu xl) None) (\<lambda>hn.
          and_then (repeat3 (enc_in self) 1 1 (unsqueeze 0 (pos_emb self))) (\<lambda>pe.
          and_then (repeat3 1 (seg_num_y self) 1 (unsqueeze 1 (channel_emb self))) (\<lambda>ce.
          and_then (cat_last pe ce) (\<lambda>pc.
          and_then (view_infer [] [1, d_model self] pc) (\<lambda>pv.
          and_then (repeat3 batch_size 1 1 pv) (\<lambda>pos.
          and_then (repeat3 1 1 (seg_num_y self) hn) (\<lambda>hr.
          and_then (view_infer [1] [d_model self] hr) (\<lambda>h0.
          and_then (gru (d_model self) (d_model self) (rnn self) pos (Some h0)) (\<lambda>hy.
          and_then (Linear (d_model self) (seg_len self) (predict self)
                      (apply_dropout msk hy)) (\<lambda>yl.
          and_then (view_infer [] [enc_in self, pred_len self] yl) (\<lambda>yv.
          and_then (permute021 yv) (\<lambda>yp.
          broadcast3 (+) yp seq_last)))))))))))))))))
      | sh \<Rightarrow> Inl (if length sh < 3 then IndexError else RuntimeError))"

subsection \<open>The forecaster, one series at a time\<close>

text \<open>
  The algorithm the forward pass is meant to compute, written for one series (batch entry
  \<open>i\<close>, channel \<open>j\<close>) on lists, without reshapes: the series minus its last value is cut into
  \<open>seq_len // seg_len\<close> segments of length \<open>seg_len\<close>; every segment is embedded (linear
  layer, then ReLU) into \<open>d_model\<close> dimensions; the GRU runs over the embeddings from the
  zero state; for each of the \<open>pred_len // seg_len\<close> output segments, one GRU step from that
  final state on the position code of the segment (its row of \<open>pos_emb\<close> followed by the
  channel's row of \<open>channel_emb\<close>) gives the state that dropout and the linear layer project
  to \<open>seg_len\<close> values; the projected segments are concatenated, and the last value is
  added back.
\<close>

definition last_value :: "'a SegRNN \<Rightarrow> 'a tensor \<Rightarrow> nat \<Rightarrow> nat \<Rightarrow> 'a" where
  "last_value self x i j = data x ! idx3 (seq_len self) (enc_in self) i (seq_len self - 1) j"

definition series :: "'a SegRNN \<Rightarrow> 'a tensor \<Rightarrow> nat \<Rightarrow> nat \<Rightarrow> ('a::{zero,one,plus,minus,times,ord}) list" where
  "series self x i j =
     map (\<lambda>t. data x ! idx3 (seq_len self) (enc_in self) i t j - last_value self x i j)
       [0..<seq_len self]"

definition segments :: "'a SegRNN \<Rightarrow> 'a list \<Rightarrow> 'a list list" where
  "segments self xs =
     map (\<lambda>q. take (seg_len self) (drop (q * seg_len self) xs))
       [0..<seq_len self div seg_len self]"

definition embed_segment :: "'a SegRNN \<Rightarrow> 'a list \<Rightarrow> ('a::{zero,one,plus,minus,times,ord}) list" where
  "embed_segment self seg =
     map (max 0) (linear_vec (seg_len self) (d_model self) (valueEmbedding self) seg)"

definition encode :: "'a SegRNN \<Rightarrow> 'a list list \<Rightarrow> ('a::{zero,one,plus,minus,times,ord}) list" where
  "encode self embs =
     foldl (\<lambda>h e. gru_cell (d_model self) (d_model self) (rnn self) e h)
       (replicate (d_model self) 0) embs"

definition position_code :: "'a SegRNN \<Rightarrow> nat \<Rightarrow> nat \<Rightarrow> 'a list" where
  "position_code self j q =
     take (d_model self div 2) (drop (q * (d_model self div 2)) (data (pos_emb self)))
     @ take (d_model self div 2) (drop (j * (d_model self div 2)) (data (channel_emb self)))"

text \<open>
  Output segment \<open>q\<close> of series \<open>(i, j)\<close>; its hidden state lies at row
  \<open>(i * enc_in + j) * (pred_len // seg_len) + q\<close> of the batch the dropout mask is drawn for.
\<close>

definition predict_segment ::
  "'a SegRNN \<Rightarrow> (nat \<Rightarrow> 'a) \<Rightarrow> nat \<Rightarrow> nat \<Rightarrow> nat \<Rightarrow> 'a list \<Rightarrow> ('a::{zero,one,plus,minus,times,ord}) list" where
  "predict_segment self msk i j q h =
     (let hy = gru_cell (d_model self) (d_model self) (rnn self) (position_code self j q) h;
          k0 = ((i * enc_in self + j) * (pred_len self div seg_len self) + q) * d_model self
      in linear_vec (d_model self) (seg_len self) (predict self)
           (map (\<lambda>l. msk (k0 + l) * hy ! l) [0..<d_model self]))"

definition forecast ::
  "'a SegRNN \<Rightarrow> (nat \<Rightarrow> 'a) \<Rightarrow> 'a tensor \<Rightarrow> nat \<Rightarrow> nat \<Rightarrow> ('a::{zero,one,plus,minus,times,ord}) list" where
  "forecast self msk x i j =
     (let h = encode self (map (embed_segment self) (segments self (series self x i j)))
      in concat (map (\<lambda>q. predict_segment self msk i j q h)
                   [0..<pred_len self div seg_len self]))"

definition segment_forecaster ::
  "'a SegRNN \<Rightarrow> (nat \<Rightarrow> 'a) \<Rightarrow> 'a tensor \<Rightarrow> ('a::{zero,one,plus,minus,times,ord}) tensor" where
  "segment_forecaster self msk x =
     mk3 (hd (shape x)) (pred_len self) (enc_in self)
       (\<lambda>i t j. forecast self msk x i j ! t + last_value self x i j)"

subsection \<open>The segmentation step and a concrete module\<close>

text \<open>
  The statements of \<^verbatim>\<open>forward\<close> up to the reshape of the input into segments: what the
  embedding layer is applied to.
\<close>

definition input_segments :: "'a SegRNN \<Rightarrow> 'a tensor \<Rightarrow> exn + ('a::{zero,one,plus,minus,times,ord}) tensor" where
  "input_segments self x =
     and_then (select_last x) (\<lambda>seq_last.
     and_then (broadcast3 (-) x seq_last) (\<lambda>xn.
     and_then (permute021 xn) (\<lambda>xp.
     view_infer [] [seg_num_x self, seg_len self] xp)))"

text \<open>
  A module over the integers, for running the forward pass on numbers: its configuration,
  the values its parameters are created with, the module the constructor builds from them
  (for a positive segment length), an input of a given shape, and the multipliers of one
  draw of dropout.  The two activation functions are stand-ins on the integers.
\<close>

definition demo_cfg :: "nat \<Rightarrow> nat \<Rightarrow> nat \<Rightarrow> nat \<Rightarrow> nat \<Rightarrow> int configs" where
  "demo_cfg s p c d w =
     \<lparr>seq_len = s, pred_len = p, enc_in = c, d_model = d, dropout = 0, seg_len = w\<rparr>"

definition demo_iv :: "int init_values" where
  "demo_iv =
     \<lparr>valueEmbedding_init = \<lparr>weight = (\<lambda>i j. int (3 * i + j) - 2), bias = (\<lambda>i. int i - 1)\<rparr>,
      rnn_init = \<lparr>weight_ih = (\<lambda>i j. int i - 2 * int j + 1),
                  weight_hh = (\<lambda>i j. int (i * j) - 1),
                  bias_ih = (\<lambda>i. int i), bias_hh = (\<lambda>i. 1 - int i),
                  act_sigmoid = (\<lambda>v. v mod 3), act_tanh = (\<lambda>v. v mod 5 - 2)\<rparr>,
      pos_emb_init = (\<lambda>k. int (k * k) + 1),
      channel_emb_init = (\<lambda>k. 7 - int k),
      predict_init = \<lparr>weight = (\<lambda>i j. int (i + 2 * j) - 1), bias = (\<lambda>i. int i)\<rparr>\<rparr>"

definition demo_model :: "nat \<Rightarrow> nat \<Rightarrow> nat \<Rightarrow> nat \<Rightarrow> nat \<Rightarrow> int SegRNN" where
  "demo_model s p c d w =
     \<lparr>seq_len = s, pred_len = p, enc_in = c, d_model = d, dropout = 0, seg_len = w,
      seg_num_x = s div w, seg_num_y = p div w,
      valueEmbedding = valueEmbedding_init demo_iv,
      rnn = rnn_init demo_iv,
      pos_emb = \<lparr>shape = [p div w, d div 2],
                 data = map (pos_emb_init demo_iv) [0..<(p div w) * (d div 2)]\<rparr>,
      channel_emb = \<lparr>shape = [c, d div 2],
                     data = map (channel_emb_init demo_iv) [0..<c * (d div 2)]\<rparr>,
      predict = predict_init demo_iv\<rparr>"

definition demo_input :: "nat list \<Rightarrow> int tensor" where
  "demo_input sh = \<lparr>shape = sh, data = map (\<lambda>k. int (k * k mod 7)) [0..<prod_list sh]\<rparr>"

definition demo_msk :: "nat \<Rightarrow> int" where
  "demo_msk k = int (k mod 3)"

section \<open>Properties of the epoch loop\<close>

lemmas demo_simps = train_def train_step_def test_step_def demo_env_def demo_loader_def
  empty_results_def append_results_def Let_def

text \<open>
  One lemma describes every run of the loop from any state: the history grows by the
  entries \<open>hs\<close> of the epochs that ran, these are an initial piece of the remaining epoch
  indices, no entry but the last stops, a stopping last entry means the loop returned, and
  the results and the console grow by what the entries in \<open>hs\<close> contribute.
\<close>

lemma train_loop_run:
  "\<exists>hs. history (final (train_loop env trl tel m st es)) = history st @ hs
      \<and> map fst hs = take (length hs) es
      \<and> list_all (\<lambda>h. \<not> stops h) (butlast hs)
      \<and> (hs \<noteq> [] \<and> stops (last hs) \<longrightarrow> returned (train_loop env trl tel m st es))
      \<and> (returned (train_loop env trl tel m st es)
            \<longrightarrow> length hs = length es \<or> (hs \<noteq> [] \<and> stops (last hs)))
      \<and> results (final (train_loop env trl tel m st es))
          = foldl append_results (results st) (map snd (filter (\<lambda>h. \<not> stops h) hs))
      \<and> console (final (train_loop env trl tel m st es))
          = console st @ map (StatusLine \<circ> snd) (filter prints hs)"
proof (induction es arbitrary: m st)
  case Nil
  show ?case by (rule exI [of _ "[]"]) simp
next
  case (Cons epoch rest)
  show ?case
  proof (cases "train_step env m trl")
    case (Inl e)
    then show ?thesis by (intro exI [of _ "[]"]) simp
  next
    case (Inr r1)
    obtain m1 trl1 tra1 where r1: "r1 = (m1, trl1, tra1)" by (cases r1)
    show ?thesis
    proof (cases "test_step env m1 tel")
      case (Inl e)
      then show ?thesis using Inr r1 by (intro exI [of _ "[]"]) simp
    next
      case te: (Inr r2)
      obtain tel1 tea1 where r2: "r2 = (tel1, tea1)" by (cases r2)
      show ?thesis
      proof (cases "scheduler_step env m1 tel1")
        case (Inl e)
        then show ?thesis using Inr r1 te r2 by (intro exI [of _ "[]"]) simp
      next
        case sch: (Inr m2)
        define mt where "mt = \<lparr>m_train_loss = trl1, m_test_loss = tel1,
                  m_train_acc = tra1, m_test_acc = tea1\<rparr>"
        show ?thesis
        proof (cases "tel1 < 7")
          case True
          then show ?thesis using Inr r1 te r2 sch
            by (intro exI [of _ "[(epoch, mt)]"]) (simp add: mt_def stops_def prints_def)
        next
          case False
          define st3 where "st3 = (if epoch mod 10 = 0
              then st\<lparr>history := history st @ [(epoch, mt)],
                      console := console st @ [StatusLine mt]\<rparr>
              else st\<lparr>history := history st @ [(epoch, mt)]\<rparr>)
             \<lparr>results := append_results (results st) mt\<rparr>"
          have step: "train_loop env trl tel m st (epoch # rest)
                        = train_loop env trl tel m2 st3 rest"
            using Inr r1 te r2 sch False by (simp add: mt_def st3_def Let_def)
          from Cons.IH [of m2 st3] obtain hs where
            hs: "history (final (train_loop env trl tel m2 st3 rest)) = history st3 @ hs"
              "map fst hs = take (length hs) rest"
              "list_all (\<lambda>h. \<not> stops h) (butlast hs)"
              "hs \<noteq> [] \<and> stops (last hs) \<longrightarrow> returned (train_loop env trl tel m2 st3 rest)"
              "returned (train_loop env trl tel m2 st3 rest)
                 \<longrightarrow> length hs = length rest \<or> (hs \<noteq> [] \<and> stops (last hs))"
              "results (final (train_loop env trl tel m2 st3 rest))
                 = foldl append_results (results st3) (map snd (filter (\<lambda>h. \<not> stops h) hs))"
              "console (final (train_loop env trl tel m2 st3 rest))
                 = console st3 @ map (StatusLine \<circ> snd) (filter prints hs)"
            by blast
          have ns: "\<not> stops (epoch, mt)" using False by (simp add: stops_def mt_def)
          have h3: "history st3 = history st @ [(epoch, mt)]" by (simp add: st3_def)
          have r3: "results st3 = append_results (results st) mt" by (simp add: st3_def)
          have c3: "console st3
                      = console st @ map (StatusLine \<circ> snd) (filter prints [(epoch, mt)])"
            using ns by (simp add: st3_def prints_def)
          show ?thesis
            unfolding step
            apply (rule exI [of _ "(epoch, mt) # hs"])
            using hs ns h3 r3 c3
            by auto
        qed
      qed
    qed
  qed
qed

lemma foldl_append_results:
  "foldl append_results r ms =
     \<lparr>train_loss = train_loss r @ map m_train_loss ms,
      test_loss = test_loss r @ map m_test_loss ms,
      train_acc = train_acc r @ map m_train_acc ms,
      test_acc = test_acc r @ map m_test_acc ms\<rparr>"
  by (induction ms arbitrary: r) (simp_all add: append_results_def)


lemma train_run:
  assumes "train env m epochs trl tel out = r"
  shows "results (final r) =
           \<lparr>train_loss = map (m_train_loss \<circ> snd) (filter (\<lambda>h. \<not> stops h) (history (final r))),
            test_loss = map (m_test_loss \<circ> snd) (filter (\<lambda>h. \<not> stops h) (history (final r))),
            train_acc = map (m_train_acc \<circ> snd) (filter (\<lambda>h. \<not> stops h) (history (final r))),
            test_acc = map (m_test_acc \<circ> snd) (filter (\<lambda>h. \<not> stops h) (history (final r)))\<rparr>"
    and "console (final r) = out @ map (StatusLine \<circ> snd) (filter prints (history (final r)))"
  using train_loop_run [of env trl tel m
      "\<lparr>results = empty_results, console = out, history = []\<rparr>" "[0..epochs - 1]"]
    assms unfolding train_def
  by (auto simp: foldl_append_results empty_results_def)

lemma train_loop_equal_lengths:
  assumes "equal_lengths (results st)"
  shows "equal_lengths (results (final (train_loop env trl tel m st es)))"
  using train_loop_run [of env trl tel m st es] assms
  by (auto simp: foldl_append_results equal_lengths_def)





text \<open>
  Claim C3, as amended.  The results dictionary that \<^verbatim>\<open>train\<close> builds starts empty in every
  call and holds, under each of its four keys and in epoch order, one value for every epoch
  of this run whose test loss was not below 7: the epoch that triggers early stopping ran
  but contributes no value.
\<close>

theorem train_results_per_completed_epoch:
  assumes "train env m epochs trl tel out = r"
  shows "train_loss (results (final r))
           = map (m_train_loss \<circ> snd)
               (filter (\<lambda>h. \<not> m_test_loss (snd h) < 7) (history (final r)))
    \<and> test_loss (results (final r))
           = map (m_test_loss \<circ> snd)
               (filter (\<lambda>h. \<not> m_test_loss (snd h) < 7) (history (final r)))
    \<and> train_acc (results (final r))
           = map (m_train_acc \<circ> snd)
               (filter (\<lambda>h. \<not> m_test_loss (snd h) < 7) (history (final r)))
    \<and> test_acc (results (final r))
           = map (m_test_acc \<circ> snd)
               (filter (\<lambda>h. \<not> m_test_loss (snd h) < 7) (history (final r)))"
  using train_run(1) [OF assms] by (simp add: stops_def)

theorem train_results_per_completed_epoch_witness:
  "results (final (train demo_env 9 5 demo_loader demo_loader []))
     = \<lparr>train_loss = [9, 8], test_loss = [8, 7], train_acc = [1, 2], test_acc = [2, 3]\<rparr>
   \<and> map fst (history (final (train demo_env 9 5 demo_loader demo_loader []))) = [0, 1, 2]"
  using train_results_per_completed_epoch [of demo_env 9 5 demo_loader demo_loader "[]", OF refl]
  by (simp add: demo_simps upto_rec1)

text \<open>
  The claim as stated (one value per epoch executed) fails on a run whose first epoch
  already has a test loss below 7: epoch 0 ran, and the four lists are empty.
\<close>

theorem results_one_value_per_executed_epoch_counterexample:
  "map fst (history (final (train demo_env 6 1 demo_loader demo_loader []))) = [0]
   \<and> train_loss (results (final (train demo_env 6 1 demo_loader demo_loader []))) = []
   \<and> test_loss (results (final (train demo_env 6 1 demo_loader demo_loader []))) = []
   \<and> train_acc (results (final (train demo_env 6 1 demo_loader demo_loader []))) = []
   \<and> test_acc (results (final (train demo_env 6 1 demo_loader demo_loader []))) = []"
  by (simp add: demo_simps)

text \<open>
  Claim C7, as amended.  The lines \<^verbatim>\<open>train\<close> prints are, in order, one status line with the
  four numbers of the epoch for every epoch that ran, has an index divisible by 10 and did
  not trigger early stopping, and no other line.
\<close>

theorem train_status_lines:
  assumes "train env m epochs trl tel out = r"
  shows "console (final r) = out @ map (StatusLine \<circ> snd)
     (filter (\<lambda>h. fst h mod 10 = 0 \<and> \<not> m_test_loss (snd h) < 7) (history (final r)))"
proof -
  have "prints = (\<lambda>h. fst h mod 10 = 0 \<and> \<not> m_test_loss (snd h) < 7)"
    by (simp add: fun_eq_iff prints_def stops_def)
  then show ?thesis using train_run(2) [OF assms] by simp
qed

theorem train_status_lines_witness:
  "console (final (train demo_env 9 5 demo_loader demo_loader []))
     = [StatusLine \<lparr>m_train_loss = 9, m_test_loss = 8, m_train_acc = 1, m_test_acc = 2\<rparr>]
   \<and> map fst (history (final (train demo_env 9 5 demo_loader demo_loader []))) = [0, 1, 2]"
  using train_status_lines [of demo_env 9 5 demo_loader demo_loader "[]", OF refl]
  by (simp add: demo_simps upto_rec1)

text \<open>
  The claim as stated (a line on exactly the epochs with an index divisible by 10) fails
  when such an epoch triggers early stopping: epoch 0 ran, 0 is divisible by 10, and
  nothing was printed, since the \<^verbatim>\<open>break\<close> comes before the \<^verbatim>\<open>print\<close>.
\<close>

theorem status_line_every_tenth_epoch_counterexample:
  "map fst (history (final (train demo_env 6 1 demo_loader demo_loader []))) = [0]
   \<and> (0::int) mod 10 = 0
   \<and> console (final (train demo_env 6 1 demo_loader demo_loader [])) = []"
  by (simp add: demo_simps)

text \<open>
  Claim C10.  The four lists have one length at the head of every iteration and in the
  returned dictionary: the equality holds for the fresh dictionary, every run of the loop
  from a state where it holds ends in a state where it holds, and so it holds at the end
  of \<^verbatim>\<open>train\<close> for every number of epochs.  That length is the number of epochs that ran
  without triggering early stopping: the stopping epoch adds to no list, and a run that
  stops in its first epoch returns the empty dictionary.
\<close>

theorem metric_lists_equal_length:
  "(equal_lengths (results st)
      \<longrightarrow> equal_lengths (results (final (train_loop env trl tel m st es))))
   \<and> equal_lengths (results (final (train env m epochs trl tel out)))
   \<and> length (train_loss (results (final (train env m epochs trl tel out))))
       = length (filter (\<lambda>h. \<not> m_test_loss (snd h) < 7)
           (history (final (train env m epochs trl tel out))))
   \<and> history (final (train demo_env 6 1 demo_loader demo_loader [])) \<noteq> []
   \<and> results (final (train demo_env 6 1 demo_loader demo_loader [])) = empty_results"
proof -
  have a: "equal_lengths (results (final (train_loop env trl tel m st es)))"
    if "equal_lengths (results st)"
    using that by (rule train_loop_equal_lengths)
  have b: "equal_lengths (results (final (train env m epochs trl tel out)))"
    unfolding train_def
    by (rule train_loop_equal_lengths) (simp add: equal_lengths_def empty_results_def)
  have c: "length (train_loss (results (final (train env m epochs trl tel out))))
       = length (filter (\<lambda>h. \<not> m_test_loss (snd h) < 7)
           (history (final (train env m epochs trl tel out))))"
    using train_run(1) [OF refl, of env m epochs trl tel out] by (simp add: stops_def)
  have d: "history (final (train demo_env 6 1 demo_loader demo_loader [])) \<noteq> []
   \<and> results (final (train demo_env 6 1 demo_loader demo_loader [])) = empty_results"
    by (simp add: demo_simps)
  show ?thesis using a b c d by blast
qed

theorem metric_lists_equal_length_witness:
  "equal_lengths \<lparr>train_loss = [1], test_loss = [2], train_acc = [3], test_acc = [4]\<rparr>
   \<and> equal_lengths (results (final (train_loop demo_env demo_loader demo_loader 9
        \<lparr>results = \<lparr>train_loss = [1], test_loss = [2], train_acc = [3], test_acc = [4]\<rparr>,
         console = [], history = []\<rparr> [5, 6, 7])))
   \<and> length (train_loss (results (final (train_loop demo_env demo_loader demo_loader 9
        \<lparr>results = \<lparr>train_loss = [1], test_loss = [2], train_acc = [3], test_acc = [4]\<rparr>,
         console = [], history = []\<rparr> [5, 6, 7])))) = 3"
  using metric_lists_equal_length [of "\<lparr>results = \<lparr>train_loss = [1], test_loss = [2],
      train_acc = [3], test_acc = [4]\<rparr>, console = [], history = []\<rparr>"
      demo_env demo_loader demo_loader 9 "[5, 6, 7]"]
  by (simp add: demo_simps equal_lengths_def)

section \<open>Properties of the main block\<close>




section \<open>Properties of the forward pass\<close>

subsection \<open>Indices, tabulated tensors and rows\<close>

lemma mult_less_rows:
  fixes r :: nat
  assumes "r < R" "t < n"
  shows "r * n + t < R * n"
proof -
  have "r * n + t < r * n + n" using assms(2) by simp
  also have "\<dots> = Suc r * n" by simp
  also have "\<dots> \<le> R * n" using assms(1) by (intro mult_le_mono1) simp
  finally show ?thesis .
qed

lemma mult_le_rows:
  fixes r :: nat
  assumes "r < R"
  shows "r * n + n \<le> R * n"
proof -
  have "r * n + n = Suc r * n" by simp
  also have "\<dots> \<le> R * n" using assms by (intro mult_le_mono1) simp
  finally show ?thesis .
qed

lemma idx3_less:
  assumes "i < a" "j < b" "l < c"
  shows "idx3 b c i j l < a * b * c"
proof -
  have "i * b + j < a * b"
  proof -
    have "i * b + j < i * b + b" using assms(2) by simp
    also have "\<dots> = Suc i * b" by simp
    also have "\<dots> \<le> a * b" using assms(1) by (intro mult_le_mono1) simp
    finally show ?thesis .
  qed
  then have "(i * b + j) * c + l < (i * b + j) * c + c" using assms(3) by simp
  also have "\<dots> = Suc (i * b + j) * c" by simp
  also have "\<dots> \<le> (a * b) * c" using \<open>i * b + j < a * b\<close> by (intro mult_le_mono1) simp
  finally show ?thesis by (simp add: idx3_def)
qed

lemma idx3_div:
  assumes "j < b" "l < c"
  shows "idx3 b c i j l div (b * c) = i" "idx3 b c i j l div c mod b = j" "idx3 b c i j l mod c = l"
proof -
  have c: "0 < c" using assms(2) by simp
  have b: "0 < b" using assms(1) by simp
  have 1: "idx3 b c i j l div c = i * b + j" using assms(2) by (simp add: idx3_def)
  show "idx3 b c i j l div c mod b = j" using assms(1) by (simp add: 1)
  show "idx3 b c i j l mod c = l" using assms(2) by (simp add: idx3_def)
  have "idx3 b c i j l div (b * c) = idx3 b c i j l div c div b"
    by (metis div_mult2_eq mult.commute)
  then show "idx3 b c i j l div (b * c) = i" using assms(1) by (simp add: 1)
qed

lemma shape_mk3 [simp]: "shape (mk3 a b c f) = [a, b, c]"
  by (simp add: mk3_def)

lemma length_data_mk3 [simp]: "length (data (mk3 a b c f)) = a * b * c"
  by (simp add: mk3_def)

lemma mk3_nth:
  assumes "i < a" "j < b" "l < c"
  shows "data (mk3 a b c f) ! idx3 b c i j l = f i j l"
  using idx3_less [OF assms] idx3_div [OF assms(2,3)] by (simp add: mk3_def)

lemma mk3_cong:
  assumes "\<And>i j l. i < a \<Longrightarrow> j < b \<Longrightarrow> l < c \<Longrightarrow> f i j l = g i j l"
  shows "mk3 a b c f = mk3 a b c g"
proof -
  have "f (k div (b * c)) (k div c mod b) (k mod c) = g (k div (b * c)) (k div c mod b) (k mod c)"
    if k: "k < a * b * c" for k
  proof -
    have c: "0 < c" and b: "0 < b" using k by (cases c; cases b; simp)+
    have "k div (b * c) < a" using k b c by (simp add: less_mult_imp_div_less mult.assoc)
    moreover have "k div c mod b < b" using b by simp
    moreover have "k mod c < c" using c by simp
    ultimately show ?thesis by (rule assms)
  qed
  then show ?thesis by (simp add: mk3_def)
qed

lemma nth_concat_rows:
  assumes "\<And>r. r < R \<Longrightarrow> length (g r) = w" "r < R" "l < w"
  shows "concat (map g [0..<R]) ! (r * w + l) = g r ! l"
  using assms
proof (induction R arbitrary: r)
  case 0
  then show ?case by simp
next
  case (Suc R)
  have len: "length (concat (map g [0..<R])) = R * w"
    using Suc.prems(1) by (induction R) (simp_all add: )
  show ?case
  proof (cases "r < R")
    case True
    then have "r * w + l < R * w"
      using Suc.prems(3) by (rule mult_less_rows)
    then show ?thesis using Suc True len by (simp add: nth_append)
  next
    case False
    then have "r = R" using Suc.prems(2) by simp
    then show ?thesis using len Suc.prems by (simp add: nth_append)
  qed
qed

lemma row_concat:
  assumes "\<And>r. r < R \<Longrightarrow> length (g r) = w" "r < R"
  shows "row w \<lparr>shape = sh, data = concat (map g [0..<R])\<rparr> r = g r"
proof (rule nth_equalityI)
  show "length (row w \<lparr>shape = sh, data = concat (map g [0..<R])\<rparr> r) = length (g r)"
    using assms by (simp add: row_def)
next
  fix l assume "l < length (row w \<lparr>shape = sh, data = concat (map g [0..<R])\<rparr> r)"
  then have l: "l < w" by (simp add: row_def)
  then show "row w \<lparr>shape = sh, data = concat (map g [0..<R])\<rparr> r ! l = g r ! l"
    using nth_concat_rows [of R g w r l] assms by (simp add: row_def)
qed

subsection \<open>The operations on tensors of three dimensions\<close>

lemma select_last_3:
  "shape x = [b, s, c] \<Longrightarrow>
     select_last x = Inr (mk3 b (min s 1) c (\<lambda>i j l. data x ! idx3 s c i (s - 1) l))"
  by (simp add: select_last_def)

lemma permute021_3:
  "shape t = [a, b, c] \<Longrightarrow> permute021 t = Inr (mk3 a c b (\<lambda>i j l. data t ! idx3 b c i l j))"
  by (simp add: permute021_def)

lemma broadcast3_3:
  assumes "shape t = [a1, a2, a3]" "shape u = [b1, b2, b3]"
    "broadcast_dim a1 b1 = Some d1" "broadcast_dim a2 b2 = Some d2" "broadcast_dim a3 b3 = Some d3"
  shows "broadcast3 f t u = Inr (mk3 d1 d2 d3 (\<lambda>i j l.
           f (data t ! idx3 a2 a3 (if a1 = 1 then 0 else i) (if a2 = 1 then 0 else j)
                (if a3 = 1 then 0 else l))
             (data u ! idx3 b2 b3 (if b1 = 1 then 0 else i) (if b2 = 1 then 0 else j)
                (if b3 = 1 then 0 else l))))"
  using assms by (simp add: broadcast3_def)

lemma repeat3_3:
  "shape t = [a, b, c] \<Longrightarrow>
     repeat3 r1 r2 r3 t = Inr (mk3 (a * r1) (b * r2) (c * r3)
        (\<lambda>i j l. data t ! idx3 b c (i mod a) (j mod b) (l mod c)))"
  by (simp add: repeat3_def)

lemma cat_last_3:
  "shape t = [a, b, c1] \<Longrightarrow> shape u = [a, b, c2] \<Longrightarrow>
     cat_last t u = Inr (mk3 a b (c1 + c2) (\<lambda>i j l.
        if l < c1 then data t ! idx3 b c1 i j l else data u ! idx3 b c2 i j (l - c1)))"
  by (simp add: cat_last_def)

lemma Linear_3:
  "shape t = [a, b, in_f] \<Longrightarrow>
     Linear in_f out_f p t = Inr \<lparr>shape = [a, b, out_f],
        data = concat (map (\<lambda>r. linear_vec in_f out_f p (row in_f t r)) [0..<a * b])\<rparr>"
  by (simp add: Linear_def)

lemma gru_3:
  "shape inp = [B, n, d_in] \<Longrightarrow> shape h0 = [1, B, d] \<Longrightarrow>
     gru d_in d p inp (Some h0) = Inr \<lparr>shape = [1, B, d],
        data = concat (map (\<lambda>r.
                  foldl (\<lambda>h t. gru_cell d_in d p (row d_in inp (r * n + t)) h)
                    (row d h0 r) [0..<n]) [0..<B])\<rparr>"
  by (simp add: gru_def)

lemma gru_3_None:
  "shape inp = [B, n, d_in] \<Longrightarrow>
     gru d_in d p inp None = gru d_in d p inp (Some (mk3 1 B d (\<lambda>i j l. 0)))"
  by (simp add: gru_def)

lemma length_linear_vec [simp]: "length (linear_vec in_f out_f p v) = out_f"
  by (simp add: linear_vec_def)

lemma length_gru_cell [simp]: "length (gru_cell d_in d p x h) = d"
  by (simp add: gru_cell_def)

lemma row_mk3:
  assumes "i < a" "j < b"
  shows "row c (mk3 a b c f) (i * b + j) = map (f i j) [0..<c]"
proof -
  have "data (mk3 a b c f) ! ((i * b + j) * c + l) = f i j l" if "l < c" for l
    using mk3_nth [OF assms that, of f] by (simp add: idx3_def)
  then show ?thesis by (simp add: row_def)
qed

lemma row_nth:
  "l < w \<Longrightarrow> row w t r ! l = data t ! (r * w + l)"
  by (simp add: row_def)

lemma length_row [simp]: "length (row w t r) = w"
  by (simp add: row_def)

subsection \<open>The encoder half of the forward pass\<close>

lemma SegRNN_init_fields:
  assumes "SegRNN_init cfg iv = Inr self"
  shows "seg_len cfg \<noteq> 0"
    "seq_len self = seq_len cfg" "pred_len self = pred_len cfg" "enc_in self = enc_in cfg"
    "d_model self = d_model cfg" "seg_len self = seg_len cfg"
    "seg_num_x self = seq_len cfg div seg_len cfg"
    "seg_num_y self = pred_len cfg div seg_len cfg"
    "pos_emb self = \<lparr>shape = [pred_len cfg div seg_len cfg, d_model cfg div 2],
        data = map (pos_emb_init iv) [0..<(pred_len cfg div seg_len cfg) * (d_model cfg div 2)]\<rparr>"
    "channel_emb self = \<lparr>shape = [enc_in cfg, d_model cfg div 2],
        data = map (channel_emb_init iv) [0..<enc_in cfg * (d_model cfg div 2)]\<rparr>"
  using assms by (auto simp: SegRNN_init_def split: if_splits)

text \<open>The encoder half: the final hidden state of every series.\<close>

lemma encoder_rows:
  fixes x :: "('a::{zero,one,plus,minus,times,ord}) tensor"
  assumes init: "SegRNN_init cfg iv = Inr self"
    and div: "seq_len cfg = n * seg_len cfg"
    and x: "shape x = [b, seq_len cfg, enc_in cfg]"
    and XP: "XP = mk3 b (enc_in cfg) (seq_len cfg) (\<lambda>i j t. series self x i j ! t)"
    and XS: "XS = XP\<lparr>shape := [b * enc_in cfg, n, seg_len cfg]\<rparr>"
    and i: "i < b" and j: "j < enc_in cfg" and q: "q < n"
  shows "row (seg_len cfg) XS ((i * enc_in cfg + j) * n + q)
           = take (seg_len cfg) (drop (q * seg_len cfg) (series self x i j))"
proof (rule nth_equalityI)
  have ls: "length (series self x i j) = n * seg_len cfg"
    using SegRNN_init_fields [OF init] div by (simp add: series_def)
  have "q * seg_len cfg + seg_len cfg \<le> n * seg_len cfg"
    using q by (rule mult_le_rows)
  then show "length (row (seg_len cfg) XS ((i * enc_in cfg + j) * n + q))
      = length (take (seg_len cfg) (drop (q * seg_len cfg) (series self x i j)))"
    using ls by simp
next
  fix l assume "l < length (row (seg_len cfg) XS ((i * enc_in cfg + j) * n + q))"
  then have l: "l < seg_len cfg" by simp
  have ls': "length (series self x i j) = n * seg_len cfg"
    using SegRNN_init_fields [OF init] div by (simp add: series_def)
  have "q * seg_len cfg + l < q * seg_len cfg + seg_len cfg" using l by simp
  also have "\<dots> \<le> n * seg_len cfg"
    using q by (rule mult_le_rows)
  finally have t: "q * seg_len cfg + l < seq_len cfg" using div by simp
  have "((i * enc_in cfg + j) * n + q) * seg_len cfg + l
          = idx3 (enc_in cfg) (seq_len cfg) i j (q * seg_len cfg + l)"
    by (simp add: idx3_def div algebra_simps)
  then have "row (seg_len cfg) XS ((i * enc_in cfg + j) * n + q) ! l
          = data XP ! idx3 (enc_in cfg) (seq_len cfg) i j (q * seg_len cfg + l)"
    using l by (simp add: row_nth XS)
  also have "\<dots> = series self x i j ! (q * seg_len cfg + l)"
    unfolding XP using i j t by (rule mk3_nth)
  finally have rw: "row (seg_len cfg) XS ((i * enc_in cfg + j) * n + q) ! l
      = series self x i j ! (q * seg_len cfg + l)" .
  show "row (seg_len cfg) XS ((i * enc_in cfg + j) * n + q) ! l
      = take (seg_len cfg) (drop (q * seg_len cfg) (series self x i j)) ! l"
  proof -
    have "q * seg_len cfg \<le> length (series self x i j)" using ls' q by simp
    then show ?thesis using l rw by (simp add: nth_drop)
  qed
qed


lemma broadcast3_mid:
  assumes "shape t = [a, b, c]" "shape u = [a, 1, c]"
  shows "broadcast3 f t u
           = Inr (mk3 a b c (\<lambda>i j l. f (data t ! idx3 b c i j l) (data u ! idx3 1 c i 0 l)))"
proof -
  have bd: "broadcast_dim a a = Some a" "broadcast_dim b 1 = Some b" "broadcast_dim c c = Some c"
    by (simp_all add: broadcast_dim_def)
  show ?thesis
    unfolding broadcast3_3 [OF assms bd]
    by (intro arg_cong [where f = Inr] mk3_cong) auto
qed

lemma view_infer_3:
  assumes "shape t = [a1, a2, a3]" "a1 * a2 * a3 = k * prod_list (pre @ post)"
    "0 < prod_list (pre @ post)"
  shows "view_infer pre post t = Inr (t\<lparr>shape := pre @ [k] @ post\<rparr>)"
proof -
  have ne: "numel t = k * prod_list (pre @ post)"
    using assms(1,2) by (simp add: numel_def mult.assoc)
  show ?thesis
    unfolding view_infer_def Let_def ne using assms(3) by simp
qed

lemma relu_rows:
  "relu \<lparr>shape = sh, data = concat (map g [0..<R])\<rparr>
     = \<lparr>shape = sh, data = concat (map (\<lambda>r. map (max 0) (g r)) [0..<R])\<rparr>"
  by (simp add: relu_def map_concat comp_def)

lemma and_then_Inr [simp]: "and_then (Inr v) f = f v"
  by (simp add: and_then_def)

lemma and_then_Inl [simp]: "and_then (Inl e) f = Inl e"
  by (simp add: and_then_def)

lemma encoder_state:
  fixes x :: "('a::{zero,one,plus,minus,times,ord}) tensor"
  assumes init: "SegRNN_init cfg iv = Inr self"
    and sizes: "0 < seq_len cfg"
    and div: "seq_len cfg = n * seg_len cfg"
    and x: "shape x = [b, seq_len cfg, enc_in cfg]"
  shows "\<exists>seq_last hn.
      select_last x = Inr seq_last
    \<and> seq_last = mk3 b 1 (enc_in cfg) (\<lambda>i j l. last_value self x i l)
    \<and> hn = \<lparr>shape = [1, b * enc_in cfg, d_model cfg],
             data = concat (map (\<lambda>r. encode self (map (embed_segment self)
                       (segments self (series self x (r div enc_in cfg) (r mod enc_in cfg)))))
                     [0..<b * enc_in cfg])\<rparr>
    \<and> (\<forall>k. and_then (broadcast3 (-) x seq_last) (\<lambda>xn.
          and_then (permute021 xn) (\<lambda>xp.
          and_then (view_infer [] [seg_num_x self, seg_len self] xp) (\<lambda>xs.
          and_then (Linear (seg_len self) (d_model self) (valueEmbedding self) xs) (\<lambda>xl.
          and_then (gru (d_model self) (d_model self) (rnn self) (relu xl) None) k))))
        = k hn)"
proof -
  note f = SegRNN_init_fields [OF init]
  define s where "s = seq_len cfg"
  define c where "c = enc_in cfg"
  define w where "w = seg_len cfg"
  define d where "d = d_model cfg"
  have w: "0 < w" using f(1) by (simp add: w_def)
  have s: "0 < s" using sizes by (simp add: s_def)
  have sn: "s = n * w" using div by (simp add: s_def w_def)
  have n: "seq_len cfg div seg_len cfg = n" using div w by (simp add: w_def)
  define SL where "SL = mk3 b 1 c (\<lambda>i j l. last_value self x i l)"
  have sl: "select_last x = Inr SL"
    using s by (simp add: select_last_3 [OF x] SL_def last_value_def f s_def c_def)
  define XN where "XN = mk3 b s c (\<lambda>i t j. series self x i j ! t)"
  have xn: "broadcast3 (-) x SL = Inr XN"
  proof -
    have "broadcast3 (-) x SL = Inr (mk3 b s c (\<lambda>i j l.
            data x ! idx3 s c i j l - data SL ! idx3 1 c i 0 l))"
      by (rule broadcast3_mid) (simp_all add: x SL_def s_def c_def)
    moreover have "mk3 b s c (\<lambda>i j l. data x ! idx3 s c i j l - data SL ! idx3 1 c i 0 l) = XN"
      unfolding XN_def
    proof (rule mk3_cong)
      fix i j l assume i: "i < b" and j: "j < s" and l: "l < c"
      have "data SL ! idx3 1 c i 0 l = last_value self x i l"
        unfolding SL_def using i l by (intro mk3_nth) simp_all
      then show "data x ! idx3 s c i j l - data SL ! idx3 1 c i 0 l = series self x i l ! j"
        using j by (simp add: series_def f s_def c_def)
    qed
    ultimately show ?thesis by simp
  qed
  define XP where "XP = mk3 b c s (\<lambda>i j t. series self x i j ! t)"
  have xp: "permute021 XN = Inr XP"
  proof -
    have "mk3 b c s (\<lambda>i j l. data XN ! idx3 s c i l j) = XP"
      unfolding XP_def
    proof (rule mk3_cong)
      fix i j l assume "i < b" "j < c" "l < s"
      then show "data XN ! idx3 s c i l j = series self x i j ! l"
        unfolding XN_def by (intro mk3_nth)
    qed
    then show ?thesis using permute021_3 [of XN b s c] by (simp add: XN_def)
  qed
  define XS where "XS = XP\<lparr>shape := [b * c, n, w]\<rparr>"
  have xs: "view_infer [] [seg_num_x self, seg_len self] XP = Inr XS"
  proof -
    have "0 < n" using s sn by (cases n) simp_all
    then have "view_infer [] [n, w] XP = Inr (XP\<lparr>shape := [] @ [b * c] @ [n, w]\<rparr>)"
      using w by (intro view_infer_3 [of _ b c s]) (simp_all add: XP_def sn)
    then show ?thesis by (simp add: XS_def f n w_def)
  qed
  define RX where "RX = \<lparr>shape = [b * c, n, d],
      data = concat (map (\<lambda>r. embed_segment self (row w XS r)) [0..<b * c * n])\<rparr>"
  have xl: "and_then (Linear (seg_len self) (d_model self) (valueEmbedding self) XS) (\<lambda>xl.
        and_then (gru (d_model self) (d_model self) (rnn self) (relu xl) None) k)
      = and_then (gru d d (rnn self) RX None) k" for k :: "'a tensor \<Rightarrow> exn + 'b"
    using Linear_3 [of XS "b * c" n w d "valueEmbedding self"]
    by (simp add: XS_def f w_def d_def and_then_def relu_rows RX_def embed_segment_def)
  define H where "H r = encode self (map (embed_segment self)
                       (segments self (series self x (r div c) (r mod c))))" for r
  define HN where "HN = \<lparr>shape = [1, b * c, d], data = concat (map H [0..<b * c])\<rparr>"
  have hn: "gru d d (rnn self) RX None = Inr HN"
  proof -
    have len: "length (embed_segment self (row w XS r)) = d" for r
      by (simp add: embed_segment_def f d_def)
    have "foldl (\<lambda>h t. gru_cell d d (rnn self) (row d RX (r * n + t)) h)
              (row d (mk3 1 (b * c) d (\<lambda>i j l. 0)) r) [0..<n] = H r"
      if r: "r < b * c" for r
    proof -
      have c: "0 < c" using r by (cases c) simp_all
      have i: "r div c < b" using r c by (simp add: less_mult_imp_div_less)
      have j: "r mod c < c" using c by simp
      have h0: "row d (mk3 1 (b * c) d (\<lambda>i j l. 0)) r = replicate d (0::'a)"
        using row_mk3 [of 0 1 r "b * c" d "\<lambda>i j l. 0::'a"] r
        by (simp add: map_replicate_const)
      have rows: "row d RX (r * n + t) = embed_segment self (segments self (series self x (r div c) (r mod c)) ! t)"
        if t: "t < n" for t
      proof -
        have "row d RX (r * n + t) = embed_segment self (row w XS (r * n + t))"
          unfolding RX_def using len mult_less_rows [OF r t] by (intro row_concat) simp_all
        moreover have "row w XS (r * n + t)
            = take w (drop (t * w) (series self x (r div c) (r mod c)))"
          using encoder_rows [OF init div x, of XP XS "r div c" "r mod c" t] i j t
          by (simp add: XP_def XS_def s_def c_def w_def)
        ultimately show ?thesis using t by (simp add: segments_def f n w_def)
      qed
      have "foldl (\<lambda>h t. gru_cell d d (rnn self) (row d RX (r * n + t)) h)
              (replicate d 0) [0..<n]
          = foldl (\<lambda>h t. gru_cell d d (rnn self)
                (embed_segment self (segments self (series self x (r div c) (r mod c)) ! t)) h)
              (replicate d 0) [0..<n]"
        by (rule foldl_cong) (simp_all add: rows)
      also have "\<dots> = foldl (\<lambda>h e. gru_cell d d (rnn self) e h) (replicate d 0)
            (map (\<lambda>t. embed_segment self (segments self (series self x (r div c) (r mod c)) ! t)) [0..<n])"
        by (simp add: foldl_map)
      also have "map (\<lambda>t. embed_segment self (segments self (series self x (r div c) (r mod c)) ! t)) [0..<n]
          = map (embed_segment self) (segments self (series self x (r div c) (r mod c)))"
        by (rule nth_equalityI) (simp_all add: segments_def f n)
      finally show ?thesis unfolding h0 by (simp add: H_def encode_def f d_def)
    qed
    then have eq: "map (\<lambda>r. foldl (\<lambda>h t. gru_cell d d (rnn self) (row d RX (r * n + t)) h)
              (row d (mk3 1 (b * c) d (\<lambda>i j l. 0)) r) [0..<n]) [0..<b * c] = map H [0..<b * c]"
      by simp
    have sh: "shape RX = [b * c, n, d]" by (simp add: RX_def)
    have "gru d d (rnn self) RX None = Inr \<lparr>shape = [1, b * c, d],
        data = concat (map (\<lambda>r. foldl (\<lambda>h t. gru_cell d d (rnn self) (row d RX (r * n + t)) h)
              (row d (mk3 1 (b * c) d (\<lambda>i j l. 0)) r) [0..<n]) [0..<b * c])\<rparr>"
      unfolding gru_3_None [OF sh] by (rule gru_3 [OF sh]) simp
    then show ?thesis unfolding eq HN_def .
  qed
  have H: "H = (\<lambda>r. encode self (map (embed_segment self)
                       (segments self (series self x (r div c) (r mod c)))))"
    by (rule ext) (simp add: H_def)
  show ?thesis
    apply (rule exI [of _ SL], rule exI [of _ HN])
    using sl xn xp xs xl hn
    by (simp add: and_then_def SL_def HN_def H c_def d_def)
qed

subsection \<open>The decoder half of the forward pass\<close>

lemma nth_concat_divmod:
  assumes "\<And>r. r < R \<Longrightarrow> length (g r) = w" "t < R * w"
  shows "concat (map g [0..<R]) ! t = g (t div w) ! (t mod w)"
proof -
  have w: "0 < w" using assms(2) by (cases w) simp_all
  have "t div w < R" using assms(2) w by (simp add: less_mult_imp_div_less)
  moreover have "t mod w < w" using w by simp
  ultimately have "concat (map g [0..<R]) ! (t div w * w + t mod w) = g (t div w) ! (t mod w)"
    using assms(1) by (intro nth_concat_rows) simp_all
  then show ?thesis by simp
qed

lemma nth_take_drop_map_upt:
  assumes "k + w \<le> N" "l < w"
  shows "take w (drop k (map f [0..<N])) ! l = f (k + l)"
proof -
  have "k \<le> length (map f [0..<N])" using assms(1) by simp
  then have "drop k (map f [0..<N]) ! l = map f [0..<N] ! (k + l)" by (rule nth_drop)
  also have "\<dots> = f (k + l)" using assms by simp
  finally show ?thesis using assms(2) by simp
qed

lemma position_code_nth:
  fixes self :: "('a::{zero,one,plus,minus,times,ord}) SegRNN"
  assumes init: "SegRNN_init cfg iv = Inr self"
    and d: "d_model cfg = d2 + d2"
    and m: "pred_len cfg div seg_len cfg = m"
    and j: "j < enc_in cfg" and q: "q < m" and l: "l < d_model cfg"
  shows "position_code self j q ! l
           = (if l < d2 then pos_emb_init iv (q * d2 + l)
              else channel_emb_init iv (j * d2 + (l - d2)))"
    and "length (position_code self j q) = d_model cfg"
proof -
  note f = SegRNN_init_fields [OF init]
  have d2: "d_model cfg div 2 = d2" using d by simp
  have qb: "q * d2 + d2 \<le> m * d2"
    using q by (rule mult_le_rows)
  have jb: "j * d2 + d2 \<le> enc_in cfg * d2"
    using j by (rule mult_le_rows)
  have lp: "length (take d2 (drop (q * d2) (data (pos_emb self)))) = d2"
    using qb by (simp add: f m d2)
  have lc: "length (take d2 (drop (j * d2) (data (channel_emb self)))) = d2"
    using jb by (simp add: f m d2)
  show "length (position_code self j q) = d_model cfg"
    using lp lc by (simp add: position_code_def f d2 d)
  show "position_code self j q ! l
           = (if l < d2 then pos_emb_init iv (q * d2 + l)
              else channel_emb_init iv (j * d2 + (l - d2)))"
  proof (cases "l < d2")
    case True
    then show ?thesis
      using lp nth_take_drop_map_upt [OF qb True, of "pos_emb_init iv"]
      by (simp add: position_code_def f d2 m nth_append)
  next
    case False
    then have l2: "l - d2 < d2" using l d by simp
    then show ?thesis
      using False lp nth_take_drop_map_upt [OF jb l2, of "channel_emb_init iv"]
      by (simp add: position_code_def f d2 m nth_append)
  qed
qed

lemma position_rows:
  fixes self :: "('a::{zero,one,plus,minus,times,ord}) SegRNN"
  assumes init: "SegRNN_init cfg iv = Inr self"
    and d: "d_model cfg = d2 + d2" and dpos: "0 < d_model cfg"
    and m: "pred_len cfg div seg_len cfg = m"
  shows "\<exists>pos. shape pos = [enc_in cfg * m * b, 1, d_model cfg]
     \<and> (\<forall>i j q. i < b \<longrightarrow> j < enc_in cfg \<longrightarrow> q < m
            \<longrightarrow> row (d_model cfg) pos ((i * enc_in cfg + j) * m + q) = position_code self j q)
     \<and> (\<forall>k. and_then (repeat3 (enc_in self) 1 1 (unsqueeze 0 (pos_emb self))) (\<lambda>pe.
          and_then (repeat3 1 (seg_num_y self) 1 (unsqueeze 1 (channel_emb self))) (\<lambda>ce.
          and_then (cat_last pe ce) (\<lambda>pc.
          and_then (view_infer [] [1, d_model self] pc) (\<lambda>pv.
          and_then (repeat3 b 1 1 pv) k)))) = k pos)"
proof -
  note f = SegRNN_init_fields [OF init]
  define c where "c = enc_in cfg"
  define dd where "dd = d_model cfg"
  have d2: "d_model cfg div 2 = d2" using d by simp
  define PE where "PE = mk3 c m d2 (\<lambda>i j l. data (pos_emb self) ! idx3 m d2 (i mod 1) (j mod m) (l mod d2))"
  have pe: "repeat3 (enc_in self) 1 1 (unsqueeze 0 (pos_emb self)) = Inr PE"
    using repeat3_3 [of "unsqueeze 0 (pos_emb self)" 1 m d2 c 1 1]
    by (simp add: unsqueeze_def f m d2 PE_def c_def)
  define CE where "CE = mk3 c m d2 (\<lambda>i j l. data (channel_emb self) ! idx3 1 d2 (i mod c) (j mod 1) (l mod d2))"
  have ce: "repeat3 1 (seg_num_y self) 1 (unsqueeze 1 (channel_emb self)) = Inr CE"
    using repeat3_3 [of "unsqueeze 1 (channel_emb self)" c 1 d2 1 m 1]
    by (simp add: unsqueeze_def f m d2 CE_def c_def)
  define PC where "PC = mk3 c m dd (\<lambda>j q l. position_code self j q ! l)"
  have pc: "cat_last PE CE = Inr PC"
  proof -
    have "mk3 c m (d2 + d2) (\<lambda>i j l.
        if l < d2 then data PE ! idx3 m d2 i j l else data CE ! idx3 m d2 i j (l - d2)) = PC"
      unfolding PC_def dd_def d
    proof (rule mk3_cong)
      fix i j l assume i: "i < c" and j: "j < m" and l: "l < d2 + d2"
      have pcn: "position_code self i j ! l
           = (if l < d2 then pos_emb_init iv (j * d2 + l)
              else channel_emb_init iv (i * d2 + (l - d2)))"
        using position_code_nth(1) [OF init d m, of i j l] i j l d by (simp add: c_def)
      show "(if l < d2 then data PE ! idx3 m d2 i j l else data CE ! idx3 m d2 i j (l - d2))
          = position_code self i j ! l"
      proof (cases "l < d2")
        case True
        have "j * d2 + l < j * d2 + d2" using True by simp
        also have "\<dots> \<le> m * d2"
          using j by (rule mult_le_rows)
        finally have b: "j * d2 + l < m * d2" .
        have "data PE ! idx3 m d2 i j l
            = data (pos_emb self) ! idx3 m d2 (i mod 1) (j mod m) (l mod d2)"
          unfolding PE_def using i j True by (rule mk3_nth)
        also have "\<dots> = pos_emb_init iv (j * d2 + l)"
          using j True b by (simp add: idx3_def f m d2)
        finally show ?thesis using True pcn by simp
      next
        case False
        then have l2: "l - d2 < d2" using l by simp
        have "i * d2 + (l - d2) < i * d2 + d2" using l2 by simp
        also have "\<dots> \<le> c * d2"
          using i by (rule mult_le_rows)
        finally have b: "i * d2 + (l - d2) < c * d2" .
        have "data CE ! idx3 m d2 i j (l - d2)
            = data (channel_emb self) ! idx3 1 d2 (i mod c) (j mod 1) ((l - d2) mod d2)"
          unfolding CE_def using i j l2 by (rule mk3_nth)
        also have "\<dots> = channel_emb_init iv (i * d2 + (l - d2))"
          using i l2 b by (simp add: idx3_def f d2 c_def)
        finally show ?thesis using False pcn by simp
      qed
    qed
    then show ?thesis using cat_last_3 [of PE c m d2 CE d2] by (simp add: PE_def CE_def)
  qed
  define PV where "PV = PC\<lparr>shape := [c * m, 1, dd]\<rparr>"
  have pv: "view_infer [] [1, d_model self] PC = Inr PV"
    using view_infer_3 [of PC c m dd "c * m" "[]" "[1, dd]"] dpos
    by (simp add: PC_def PV_def f dd_def)
  define POS where "POS = mk3 (c * m * b) 1 dd
      (\<lambda>i j l. data PV ! idx3 1 dd (i mod (c * m)) (j mod 1) (l mod dd))"
  have pos: "repeat3 b 1 1 PV = Inr POS"
    using repeat3_3 [of PV "c * m" 1 dd b 1 1] by (simp add: PV_def POS_def)
  have rows: "row dd POS ((i * c + j) * m + q) = position_code self j q"
    if i: "i < b" and j: "j < c" and q: "q < m" for i j q
  proof -
    have jq: "j * m + q < c * m" using j q by (rule mult_less_rows)
    have R: "(i * c + j) * m + q < c * m * b"
    proof -
      have "i * c + j < b * c" using i j by (rule mult_less_rows)
      then have "(i * c + j) * m + q < b * c * m" using q by (rule mult_less_rows)
      then show ?thesis by (simp add: ac_simps)
    qed
    have md: "((i * c + j) * m + q) mod (c * m) = j * m + q"
    proof -
      have "((i * c + j) * m + q) mod (c * m) = (i * (c * m) + (j * m + q)) mod (c * m)"
        by (simp add: algebra_simps)
      also have "\<dots> = (j * m + q) mod (c * m)" by (rule mod_mult_self3)
      also have "\<dots> = j * m + q" using jq by simp
      finally show ?thesis .
    qed
    have "row dd POS (((i * c + j) * m + q) * 1 + 0)
        = map (\<lambda>l. data PV ! idx3 1 dd (((i * c + j) * m + q) mod (c * m)) (0 mod 1) (l mod dd))
            [0..<dd]"
      unfolding POS_def using R by (intro row_mk3) simp_all
    also have "\<dots> = map (\<lambda>l. position_code self j q ! l) [0..<dd]"
    proof (rule map_cong [OF refl])
      fix l assume "l \<in> set [0..<dd]"
      then have l: "l < dd" by simp
      have "data PV ! idx3 1 dd (j * m + q) 0 l = data PC ! idx3 m dd j q l"
        by (simp add: PV_def idx3_def)
      also have "\<dots> = position_code self j q ! l"
        unfolding PC_def using j q l by (rule mk3_nth)
      finally show "data PV ! idx3 1 dd (((i * c + j) * m + q) mod (c * m)) (0 mod 1) (l mod dd)
          = position_code self j q ! l"
        using l by (simp add: md)
    qed
    also have "\<dots> = position_code self j q"
    proof -
      have "length (position_code self j q) = dd"
        using position_code_nth(2) [OF init d m _ _ dpos, of j q] j q
        by (simp add: dd_def c_def)
      then show ?thesis using map_nth [of "position_code self j q"] by simp
    qed
    finally show ?thesis by simp
  qed
  show ?thesis
    apply (rule exI [of _ POS])
    using pe ce pc pv pos rows
    by (simp add: and_then_def POS_def c_def dd_def f)
qed

lemma hidden_rows:
  assumes hn: "hn = \<lparr>shape = [1, B, d], data = concat (map H [0..<B])\<rparr>"
    and len: "\<And>r. r < B \<Longrightarrow> length (H r) = d"
    and d: "0 < d"
  shows "\<exists>h0. shape h0 = [1, B * m, d]
     \<and> (\<forall>r q. r < B \<longrightarrow> q < m \<longrightarrow> row d h0 (r * m + q) = H r)
     \<and> (\<forall>k. and_then (repeat3 1 1 m hn) (\<lambda>hr. and_then (view_infer [1] [d] hr) k) = k h0)"
proof -
  define HR where "HR = mk3 1 B (d * m)
      (\<lambda>i j l. data hn ! idx3 B d (i mod 1) (j mod B) (l mod d))"
  have hr: "repeat3 1 1 m hn = Inr HR"
    using repeat3_3 [of hn 1 B d 1 1 m] by (simp add: hn HR_def)
  define H0 where "H0 = HR\<lparr>shape := [1, B * m, d]\<rparr>"
  have h0: "view_infer [1] [d] HR = Inr H0"
    using view_infer_3 [of HR 1 B "d * m" "B * m" "[1]" "[d]"] d
    by (simp add: HR_def H0_def)
  have rows: "row d H0 (r * m + q) = H r" if r: "r < B" and q: "q < m" for r q
  proof (rule nth_equalityI)
    show "length (row d H0 (r * m + q)) = length (H r)" using len r by simp
  next
    fix l assume "l < length (row d H0 (r * m + q))"
    then have l: "l < d" by simp
    have ql: "q * d + l < d * m"
    proof -
      have "q * d + l < m * d" using q l by (rule mult_less_rows)
      then show ?thesis by (simp add: mult.commute)
    qed
    have "(r * m + q) * d + l = idx3 B (d * m) 0 r (q * d + l)"
      by (simp add: idx3_def algebra_simps)
    then have "row d H0 (r * m + q) ! l = data HR ! idx3 B (d * m) 0 r (q * d + l)"
      using l by (simp add: row_nth H0_def)
    also have "\<dots> = data hn ! idx3 B d (0 mod 1) (r mod B) ((q * d + l) mod d)"
      unfolding HR_def using r ql by (intro mk3_nth) simp_all
    also have "\<dots> = concat (map H [0..<B]) ! (r * d + l)"
      using r l by (simp add: idx3_def hn)
    also have "\<dots> = H r ! l" using len r l by (intro nth_concat_rows) simp_all
    finally show "row d H0 (r * m + q) ! l = H r ! l" .
  qed
  show ?thesis
    apply (rule exI [of _ H0])
    using hr h0 rows by (simp add: and_then_def H0_def)
qed

lemma gru_single_step:
  assumes "shape pos = [N, 1, d]" "shape h0 = [1, N, d]"
  shows "gru d d p pos (Some h0) = Inr \<lparr>shape = [1, N, d],
      data = concat (map (\<lambda>R. gru_cell d d p (row d pos R) (row d h0 R)) [0..<N])\<rparr>"
  using gru_3 [OF assms, of p] by simp

lemma project_rows:
  fixes G :: "nat \<Rightarrow> ('a::{zero,one,plus,minus,times,ord}) list"
  assumes hy: "hy = \<lparr>shape = [1, N, d], data = concat (map G [0..<N])\<rparr>"
    and len: "\<And>R. R < N \<Longrightarrow> length (G R) = d"
  shows "Linear d w pp (apply_dropout msk hy) = Inr \<lparr>shape = [1, N, w],
      data = concat (map (\<lambda>R. linear_vec d w pp (map (\<lambda>l. msk (R * d + l) * G R ! l) [0..<d]))
        [0..<N])\<rparr>"
proof -
  have sh: "shape (apply_dropout msk hy) = [1, N, d]" by (simp add: apply_dropout_def hy)
  have rows: "row d (apply_dropout msk hy) R = map (\<lambda>l. msk (R * d + l) * G R ! l) [0..<d]"
    if R: "R < N" for R
  proof (rule nth_equalityI)
    show "length (row d (apply_dropout msk hy) R)
        = length (map (\<lambda>l. msk (R * d + l) * G R ! l) [0..<d])" by simp
  next
    fix l assume "l < length (row d (apply_dropout msk hy) R)"
    then have l: "l < d" by simp
    have b: "R * d + l < N * d" using R l by (rule mult_less_rows)
    have "concat (map G [0..<N]) ! (R * d + l) = G R ! l"
      using len R l by (intro nth_concat_rows) simp_all
    then show "row d (apply_dropout msk hy) R ! l
        = map (\<lambda>l. msk (R * d + l) * G R ! l) [0..<d] ! l"
      using l b by (simp add: row_nth apply_dropout_def hy numel_def)
  qed
  have eq: "map (\<lambda>r. linear_vec d w pp (row d (apply_dropout msk hy) r)) [0..<N]
      = map (\<lambda>R. linear_vec d w pp (map (\<lambda>l. msk (R * d + l) * G R ! l) [0..<d])) [0..<N]"
    by (rule map_cong [OF refl]) (simp add: rows)
  have "Linear d w pp (apply_dropout msk hy) = Inr \<lparr>shape = [1, N, w],
      data = concat (map (\<lambda>r. linear_vec d w pp (row d (apply_dropout msk hy) r)) [0..<N])\<rparr>"
    using Linear_3 [OF sh, of w pp] by simp
  then show ?thesis unfolding eq .
qed

lemma unsegment_rows:
  assumes yl: "yl = \<lparr>shape = [1, b * c * m, w], data = concat (map Y [0..<b * c * m])\<rparr>"
    and len: "\<And>R. R < b * c * m \<Longrightarrow> length (Y R) = w"
    and p: "p = m * w" and pos: "0 < c" "0 < p"
  shows "and_then (view_infer [] [c, p] yl) (\<lambda>yv. and_then (permute021 yv) k)
     = k (mk3 b p c (\<lambda>i t j. concat (map (\<lambda>q. Y ((i * c + j) * m + q)) [0..<m]) ! t))"
proof -
  define YV where "YV = yl\<lparr>shape := [b, c, p]\<rparr>"
  have yv: "view_infer [] [c, p] yl = Inr YV"
    using view_infer_3 [of yl 1 "b * c * m" w b "[]" "[c, p]"] pos
    by (simp add: yl YV_def p)
  have w: "0 < w" using pos(2) p by (cases w) simp_all
  have "mk3 b p c (\<lambda>i j l. data YV ! idx3 c p i l j)
      = mk3 b p c (\<lambda>i t j. concat (map (\<lambda>q. Y ((i * c + j) * m + q)) [0..<m]) ! t)"
  proof (rule mk3_cong)
    fix i t j assume i: "i < b" and t: "t < p" and j: "j < c"
    have tq: "t div w < m" using t p w by (simp add: less_mult_imp_div_less)
    have ij: "i * c + j < b * c" using i j by (rule mult_less_rows)
    have R: "(i * c + j) * m + t div w < b * c * m" using ij tq by (rule mult_less_rows)
    have "idx3 c p i j t = ((i * c + j) * m + t div w) * w + t mod w"
    proof -
      have "((i * c + j) * m + t div w) * w + t mod w
          = (i * c + j) * (m * w) + (t div w * w + t mod w)"
        by (simp add: algebra_simps)
      then show ?thesis by (simp add: idx3_def p)
    qed
    then have "data YV ! idx3 c p i j t
        = concat (map Y [0..<b * c * m]) ! (((i * c + j) * m + t div w) * w + t mod w)"
      by (simp add: YV_def yl)
    also have "\<dots> = Y ((i * c + j) * m + t div w) ! (t mod w)"
      using len R w by (intro nth_concat_rows) simp_all
    also have "\<dots> = concat (map (\<lambda>q. Y ((i * c + j) * m + q)) [0..<m]) ! t"
    proof -
      have "length (Y ((i * c + j) * m + q)) = w" if "q < m" for q
        using len mult_less_rows [OF ij that] by simp
      then show ?thesis using t p by (subst nth_concat_divmod [where w = w]) simp_all
    qed
    finally show "data YV ! idx3 c p i j t
        = concat (map (\<lambda>q. Y ((i * c + j) * m + q)) [0..<m]) ! t" .
  qed
  then show ?thesis
    using yv permute021_3 [of YV b c p] by (simp add: and_then_def YV_def)
qed

subsection \<open>The forward pass on a fitting configuration\<close>

lemma forward_exact:
  fixes x :: "('a::{zero,one,plus,minus,times,ord}) tensor"
  assumes init: "SegRNN_init cfg iv = Inr self"
    and sizes: "0 < seq_len cfg" "0 < pred_len cfg" "0 < enc_in cfg" "0 < d_model cfg"
      "even (d_model cfg)"
    and dvd: "seg_len cfg dvd seq_len cfg" "seg_len cfg dvd pred_len cfg"
    and x: "shape x = [b, seq_len cfg, enc_in cfg]"
  shows "forward self msk x = Inr (segment_forecaster self msk x)"
proof -
  note f = SegRNN_init_fields [OF init]
  define c where "c = enc_in cfg"
  define d where "d = d_model cfg"
  define w where "w = seg_len cfg"
  define p where "p = pred_len cfg"
  define n where "n = seq_len cfg div seg_len cfg"
  define m where "m = pred_len cfg div seg_len cfg"
  define d2 where "d2 = d_model cfg div 2"
  have sn: "seq_len cfg = n * seg_len cfg" using dvd(1) by (simp add: n_def)
  have pm: "p = m * w" using dvd(2) by (simp add: m_def p_def w_def)
  have pdw: "p div w = m" by (simp add: m_def p_def w_def)
  have dd: "d_model cfg = d2 + d2" using sizes(5) by (auto simp: d2_def elim: evenE)
  have self: "enc_in self = c" "d_model self = d" "seg_len self = w" "pred_len self = p"
    "seg_num_y self = m" "seq_len self = seq_len cfg"
    by (simp_all add: f c_def d_def w_def p_def m_def)
  define H where "H = (\<lambda>r. encode self (map (embed_segment self)
      (segments self (series self x (r div c) (r mod c)))))"
  have lenH: "length (H r) = d" for r
  proof -
    have "length (foldl (\<lambda>h e. gru_cell d d (rnn self) e h) h0 es) = d"
      if "length h0 = d" for h0 :: "'a list" and es
      using that by (induction es arbitrary: h0) simp_all
    then show ?thesis by (simp add: H_def encode_def self)
  qed
  from encoder_state [OF init sizes(1) sn x, where ?'b = "'a tensor"]
  obtain SL HN where sl: "select_last x = Inr SL"
    and SL: "SL = mk3 b 1 c (\<lambda>i j l. last_value self x i l)"
    and HN: "HN = \<lparr>shape = [1, b * c, d], data = concat (map H [0..<b * c])\<rparr>"
    and enc: "\<And>k :: 'a tensor \<Rightarrow> exn + 'a tensor.
        and_then (broadcast3 (-) x SL) (\<lambda>xn.
          and_then (permute021 xn) (\<lambda>xp.
          and_then (view_infer [] [seg_num_x self, seg_len self] xp) (\<lambda>xs.
          and_then (Linear (seg_len self) (d_model self) (valueEmbedding self) xs) (\<lambda>xl.
          and_then (gru (d_model self) (d_model self) (rnn self) (relu xl) None) k))))
        = k HN"
    unfolding H_def c_def d_def by blast
  from position_rows [OF init dd sizes(4) m_def [symmetric], of b, where ?'b = "'a tensor"]
  obtain POS where POSsh: "shape POS = [c * m * b, 1, d]"
    and POSrows: "\<And>i j q. i < b \<Longrightarrow> j < c \<Longrightarrow> q < m
        \<Longrightarrow> row d POS ((i * c + j) * m + q) = position_code self j q"
    and posk: "\<And>k :: 'a tensor \<Rightarrow> exn + 'a tensor.
        and_then (repeat3 (enc_in self) 1 1 (unsqueeze 0 (pos_emb self))) (\<lambda>pe.
          and_then (repeat3 1 (seg_num_y self) 1 (unsqueeze 1 (channel_emb self))) (\<lambda>ce.
          and_then (cat_last pe ce) (\<lambda>pc.
          and_then (view_infer [] [1, d_model self] pc) (\<lambda>pv.
          and_then (repeat3 b 1 1 pv) k)))) = k POS"
    unfolding c_def d_def by blast
  have dpos: "0 < d" using sizes(4) by (simp add: d_def)
  from hidden_rows [OF HN lenH dpos, of m, where ?'b = "'a tensor"]
  obtain H0 where H0sh: "shape H0 = [1, b * c * m, d]"
    and H0rows: "\<And>r q. r < b * c \<Longrightarrow> q < m \<Longrightarrow> row d H0 (r * m + q) = H r"
    and hidk: "\<And>k :: 'a tensor \<Rightarrow> exn + 'a tensor.
        and_then (repeat3 1 1 m HN) (\<lambda>hr. and_then (view_infer [1] [d] hr) k) = k H0"
    by blast
  define N where "N = b * c * m"
  have POSsh': "shape POS = [N, 1, d]" using POSsh by (simp add: N_def ac_simps)
  have H0sh': "shape H0 = [1, N, d]" using H0sh by (simp add: N_def)
  define G where "G = (\<lambda>R. gru_cell d d (rnn self) (row d POS R) (row d H0 R))"
  define HY where "HY = \<lparr>shape = [1, N, d], data = concat (map G [0..<N])\<rparr>"
  have hy: "gru d d (rnn self) POS (Some H0) = Inr HY"
    using gru_single_step [OF POSsh' H0sh', of "rnn self"] by (simp add: HY_def G_def)
  define Y where "Y = (\<lambda>R. linear_vec d w (predict self)
      (map (\<lambda>l. msk (R * d + l) * G R ! l) [0..<d]))"
  define YL where "YL = \<lparr>shape = [1, N, w], data = concat (map Y [0..<N])\<rparr>"
  have yl: "Linear d w (predict self) (apply_dropout msk HY) = Inr YL"
  proof -
    have "length (G R) = d" for R by (simp add: G_def)
    then show ?thesis
      using project_rows [OF HY_def, where w = w and pp = "predict self" and msk = msk]
      by (simp add: YL_def Y_def)
  qed
  define YP where "YP = mk3 b p c
      (\<lambda>i t j. concat (map (\<lambda>q. Y ((i * c + j) * m + q)) [0..<m]) ! t)"
  have cpos: "0 < c" and ppos: "0 < p" using sizes by (simp_all add: c_def p_def)
  have yp: "and_then (view_infer [] [c, p] YL) (\<lambda>yv. and_then (permute021 yv) k) = k YP"
    for k :: "'a tensor \<Rightarrow> exn + 'a tensor"
    unfolding YP_def
    by (rule unsegment_rows [OF YL_def [unfolded N_def] _ pm cpos ppos]) (simp add: Y_def)
  have fin: "broadcast3 (+) YP SL = Inr (segment_forecaster self msk x)"
  proof -
    have "broadcast3 (+) YP SL
        = Inr (mk3 b p c (\<lambda>i j l. data YP ! idx3 p c i j l + data SL ! idx3 1 c i 0 l))"
      by (rule broadcast3_mid) (simp_all add: YP_def SL)
    moreover have "mk3 b p c (\<lambda>i j l. data YP ! idx3 p c i j l + data SL ! idx3 1 c i 0 l)
        = segment_forecaster self msk x"
      unfolding segment_forecaster_def x self list.sel
    proof (rule mk3_cong)
      fix i t j assume i: "i < b" and t: "t < p" and j: "j < c"
      have ij: "i * c + j < b * c" using i j by (rule mult_less_rows)
      have s1: "data SL ! idx3 1 c i 0 j = last_value self x i j"
        unfolding SL using i j by (intro mk3_nth) simp_all
      have s2: "data YP ! idx3 p c i t j
          = concat (map (\<lambda>q. Y ((i * c + j) * m + q)) [0..<m]) ! t"
        unfolding YP_def using i t j by (rule mk3_nth)
      have Hij: "H (i * c + j) = encode self (map (embed_segment self)
          (segments self (series self x i j)))"
        using j by (simp add: H_def)
      have "Y ((i * c + j) * m + q) = predict_segment self msk i j q (H (i * c + j))"
        if q: "q < m" for q
        using POSrows [OF i j q] H0rows [OF ij q]
        by (simp add: Y_def G_def predict_segment_def Let_def self pdw)
      then have meq: "map (\<lambda>q. Y ((i * c + j) * m + q)) [0..<m]
          = map (\<lambda>q. predict_segment self msk i j q (H (i * c + j))) [0..<m]"
        by simp
      have "forecast self msk x i j
          = concat (map (\<lambda>q. predict_segment self msk i j q (H (i * c + j))) [0..<m])"
        by (simp add: forecast_def Let_def Hij self pdw)
      then have "data YP ! idx3 p c i t j = forecast self msk x i j ! t"
        unfolding s2 meq by simp
      then show "data YP ! idx3 p c i t j + data SL ! idx3 1 c i 0 j
          = forecast self msk x i j ! t + last_value self x i j"
        using s1 by simp
    qed
    ultimately show ?thesis by simp
  qed
  show ?thesis
    unfolding forward_def x list.case
    apply (simp only: sl and_then_Inr)
    apply (simp only: enc)
    apply (simp only: posk)
    apply (simp only: self hidk)
    apply (simp only: hy yl and_then_Inr yp fin)
    done
qed

subsection \<open>What a successful forward pass says about the configuration\<close>

text \<open>
  When all statements of \<^verbatim>\<open>forward\<close> succeed on a non-empty input, the shapes they produce
  leave two possibilities: \<open>seg_len\<close> divides both lengths and the result has the shape
  \<open>[batch, pred_len, enc_in]\<close>; or \<open>pred_len < seg_len\<close>, so that \<open>seg_num_y\<close> is 0 and the
  decoder works on tensors without entries, the batch size is 1, and the result is the
  empty tensor of shape \<open>[0, pred_len, enc_in]\<close>.
\<close>

lemma and_thenE:
  assumes "and_then r f = Inr y"
  obtains v where "r = Inr v" "f v = Inr y"
  using assms by (cases r) simp_all

lemma view_infer_Inr:
  assumes "view_infer pre post t = Inr r"
  shows "0 < prod_list (pre @ post)" "numel t mod prod_list (pre @ post) = 0"
    "shape r = pre @ [numel t div prod_list (pre @ post)] @ post"
  using assms by (auto simp: view_infer_def Let_def split: if_splits)

lemma broadcast3_Inr:
  assumes "broadcast3 f t u = Inr r" "shape t = [a1, a2, a3]" "shape u = [b1, b2, b3]"
  shows "\<exists>d1 d2 d3. broadcast_dim a1 b1 = Some d1 \<and> broadcast_dim a2 b2 = Some d2
     \<and> broadcast_dim a3 b3 = Some d3 \<and> shape r = [d1, d2, d3]"
  using assms by (auto simp: broadcast3_def split: option.splits)

lemma gru_Inr:
  assumes "gru d_in d p inp hx = Inr r" "shape inp = [B, n, f]"
  shows "shape r = [1, B, d]" "hx = Some h \<Longrightarrow> shape h = [1, B, d]"
  using assms by (auto simp: gru_def Let_def split: if_splits option.splits)

lemma Linear_Inr:
  assumes "Linear in_f out_f p t = Inr r" "shape t = [a, b, c]"
  shows "shape r = [a, b, out_f]"
  using assms by (auto simp: Linear_def split: if_splits)

lemma mod0_split: "(a::nat) mod k = 0 \<Longrightarrow> a = a div k * k"
  by (metis add.right_neutral div_mult_mod_eq)

lemma forward_steps_result:
  assumes steps: "select_last x = Inr sl" "broadcast3 (-) x sl = Inr xn"
      "permute021 xn = Inr xp" "view_infer [] [s div w, w] xp = Inr xs"
      "Linear w d pe xs = Inr xl" "gru d d pr (relu xl) None = Inr hn"
      "repeat3 1 1 (p div w) hn = Inr hr" "view_infer [1] [d] hr = Inr h0"
      "gru d d pr pos (Some h0) = Inr hy" "Linear d w pp (apply_dropout msk hy) = Inr yl"
      "view_infer [] [c, p] yl = Inr yv" "permute021 yv = Inr yp"
      "broadcast3 (+) yp sl = Inr y"
    and pos: "shape pos = [c * (p div w) * b, 1, d]"
    and x: "shape x = [b, s, c]"
    and sizes: "0 < b" "0 < c" "0 < p" "0 < d"
  shows "(w dvd s \<and> w dvd p \<and> shape y = [b, p, c])
      \<or> (p < w \<and> b = 1 \<and> shape y = [0, p, c])"
proof -
  define n where "n = s div w"
  define m where "m = p div w"
  have sl: "shape sl = [b, min s 1, c]" using steps(1) x by (auto simp: select_last_3)
  from broadcast3_Inr [OF steps(2) x sl]
  have xn: "shape xn = [b, s, c]" by (auto simp: broadcast_dim_def split: if_splits)
  have xp: "shape xp = [b, c, s]" using steps(3) xn by (auto simp: permute021_3)
  note v1 = view_infer_Inr [OF steps(4)]
  have nw: "0 < n * w" using v1(1) by (simp add: n_def)
  then have w: "0 < w" and n: "0 < n" by simp_all
  have s0: "0 < s" using n by (cases "s = 0") (simp_all add: n_def)
  define B1 where "B1 = (b * c * s) div (n * w)"
  have "(b * c * s) mod (n * w) = 0"
    using v1(2) by (simp add: numel_def xp n_def mult.assoc)
  then have B1: "b * c * s = B1 * (n * w)" unfolding B1_def by (rule mod0_split)
  have xs: "shape xs = [B1, n, w]" using v1(3) by (simp add: numel_def xp n_def B1_def mult.assoc)
  have xl: "shape (relu xl) = [B1, n, d]" using Linear_Inr [OF steps(5) xs] by (simp add: relu_def)
  have hn: "shape hn = [1, B1, d]" using gru_Inr(1) [OF steps(6) xl] .
  have hr: "shape hr = [1, B1, d * m]" using steps(7) hn by (auto simp: repeat3_3 m_def)
  note v2 = view_infer_Inr [OF steps(8)]
  have "B1 * (d * m) div d = B1 * m" using sizes(4) by (simp add: mult.left_commute [of B1 d m])
  then have h0: "shape h0 = [1, B1 * m, d]" using v2(3) by (simp add: numel_def hr)
  have Bm: "B1 * m = c * m * b" using gru_Inr(2) [OF steps(9) pos refl] h0 by (simp add: m_def)
  have hy: "shape (apply_dropout msk hy) = [1, c * m * b, d]"
    using gru_Inr(1) [OF steps(9) pos] by (simp add: apply_dropout_def m_def)
  have yl: "shape yl = [1, c * m * b, w]" using Linear_Inr [OF steps(10) hy] .
  note v3 = view_infer_Inr [OF steps(11)]
  define B2 where "B2 = (c * m * b * w) div (c * p)"
  have "(c * m * b * w) mod (c * p) = 0"
    using v3(2) by (simp add: numel_def yl)
  then have B2: "c * m * b * w = B2 * (c * p)" unfolding B2_def by (rule mod0_split)
  have yv: "shape yv = [B2, c, p]" using v3(3) by (simp add: numel_def yl B2_def)
  have yp: "shape yp = [B2, p, c]" using steps(12) yv by (auto simp: permute021_3)
  from broadcast3_Inr [OF steps(13) yp sl] obtain d1 d2 d3 where
    bd: "broadcast_dim B2 b = Some d1" "broadcast_dim p (min s 1) = Some d2"
      "broadcast_dim c c = Some d3" and ysh: "shape y = [d1, d2, d3]"
    by blast
  have "min s 1 = 1" using s0 by simp
  then have d2: "d2 = p" using bd(2) by (auto simp: broadcast_dim_def split: if_splits)
  have d3: "d3 = c" using bd(3) by (simp add: broadcast_dim_def)
  have Bp: "m * b * w = B2 * p"
  proof -
    have "c * (m * b * w) = c * (B2 * p)" using B2 by (simp add: ac_simps)
    then show ?thesis using sizes(2) by simp
  qed
  show ?thesis
  proof (cases "m = 0")
    case True
    then have "B2 * p = 0" using Bp by simp
    then have B20: "B2 = 0" using sizes by simp
    then have "b = 1 \<and> d1 = 0" using bd(1) sizes(1)
      by (auto simp: broadcast_dim_def split: if_splits)
    moreover have "p < w" using True w unfolding m_def by (simp add: div_eq_0_iff)
    ultimately show ?thesis using ysh d2 d3 by simp
  next
    case False
    then have m: "0 < m" by simp
    have "B1 = c * b" using Bm m by (simp add: ac_simps)
    then have "b * c * s = b * c * (n * w)" using B1 by (simp add: ac_simps)
    then have s: "s = n * w" using sizes by simp
    have mw: "m * w \<le> p" unfolding m_def by simp
    have B2cases: "(B2 = b \<or> B2 = 1) \<and> d1 = b"
    proof (cases "b = 1")
      case True
      then have e: "m * w = B2 * p" using Bp by simp
      have "0 < B2" using e m w by (cases "B2 = 0") simp_all
      moreover have "B2 * p \<le> 1 * p" using e mw by simp
      then have "B2 \<le> 1" using sizes(3) by (simp only: mult_le_cancel2)
      ultimately have "B2 = 1" by simp
      then show ?thesis using bd(1) True by (simp add: broadcast_dim_def)
    next
      case False
      then show ?thesis using bd(1) by (auto simp: broadcast_dim_def split: if_splits)
    qed
    then have "p = m * w \<or> p = (m * b) * w" using Bp sizes(1) by (auto simp: ac_simps)
    then have "w dvd p" by (metis dvd_triv_right)
    then show ?thesis using s B2cases ysh d2 d3 by simp
  qed
qed

lemma demo_model_init:
  "0 < w \<Longrightarrow> SegRNN_init (demo_cfg s p c d w) demo_iv = Inr (demo_model s p c d w)"
  by (simp add: SegRNN_init_def demo_cfg_def demo_model_def)

lemma demo_cfg_fields:
  "seq_len (demo_cfg s p c d w) = s" "pred_len (demo_cfg s p c d w) = p"
  "enc_in (demo_cfg s p c d w) = c" "d_model (demo_cfg s p c d w) = d"
  "seg_len (demo_cfg s p c d w) = w"
  by (simp_all add: demo_cfg_def)

lemma shape_segment_forecaster:
  "shape x = b # sh \<Longrightarrow> shape (segment_forecaster self msk x) = [b, pred_len self, enc_in self]"
  by (simp add: segment_forecaster_def)

lemma forward_result_shape:
  fixes x :: "('a::{zero,one,plus,minus,times,ord}) tensor"
  assumes init: "SegRNN_init cfg iv = Inr self"
    and sizes: "0 < pred_len cfg" "0 < enc_in cfg" "0 < d_model cfg" "even (d_model cfg)"
    and x: "shape x = [b, seq_len cfg, enc_in cfg]" and b: "0 < b"
    and fwd: "forward self msk x = Inr y"
  shows "(seg_len cfg dvd seq_len cfg \<and> seg_len cfg dvd pred_len cfg
           \<and> shape y = [b, pred_len cfg, enc_in cfg])
      \<or> (pred_len cfg < seg_len cfg \<and> b = 1 \<and> shape y = [0, pred_len cfg, enc_in cfg])"
proof -
  note f = SegRNN_init_fields [OF init]
  have dd: "d_model cfg = d_model cfg div 2 + d_model cfg div 2"
    using sizes(4) by (auto elim: evenE)
  from position_rows [OF init dd sizes(3) refl, of b, where ?'b = "'a tensor"]
  obtain pos where possh: "shape pos = [enc_in cfg * (pred_len cfg div seg_len cfg) * b, 1, d_model cfg]"
    and posk: "\<And>k :: 'a tensor \<Rightarrow> exn + 'a tensor.
        and_then (repeat3 (enc_in self) 1 1 (unsqueeze 0 (pos_emb self))) (\<lambda>pe.
          and_then (repeat3 1 (seg_num_y self) 1 (unsqueeze 1 (channel_emb self))) (\<lambda>ce.
          and_then (cat_last pe ce) (\<lambda>pc.
          and_then (view_infer [] [1, d_model self] pc) (\<lambda>pv.
          and_then (repeat3 b 1 1 pv) k)))) = k pos"
    by blast
  have chain: "forward self msk x = and_then (select_last x) (\<lambda>seq_last.
          and_then (broadcast3 (-) x seq_last) (\<lambda>xn.
          and_then (permute021 xn) (\<lambda>xp.
          and_then (view_infer [] [seq_len cfg div seg_len cfg, seg_len cfg] xp) (\<lambda>xs.
          and_then (Linear (seg_len cfg) (d_model cfg) (valueEmbedding self) xs) (\<lambda>xl.
          and_then (gru (d_model cfg) (d_model cfg) (rnn self) (relu xl) None) (\<lambda>hn.
          and_then (repeat3 1 1 (pred_len cfg div seg_len cfg) hn) (\<lambda>hr.
          and_then (view_infer [1] [d_model cfg] hr) (\<lambda>h0.
          and_then (gru (d_model cfg) (d_model cfg) (rnn self) pos (Some h0)) (\<lambda>hy.
          and_then (Linear (d_model cfg) (seg_len cfg) (predict self)
                      (apply_dropout msk hy)) (\<lambda>yl.
          and_then (view_infer [] [enc_in cfg, pred_len cfg] yl) (\<lambda>yv.
          and_then (permute021 yv) (\<lambda>yp.
          broadcast3 (+) yp seq_last))))))))))))"
    unfolding forward_def x list.case
    apply (simp only: posk)
    apply (simp only: f(2-8))
    done
  from fwd [unfolded chain] show ?thesis
    apply (elim and_thenE)
    apply (rule forward_steps_result [where x = x and y = y and pos = pos and b = b
          and c = "enc_in cfg" and d = "d_model cfg" and msk = msk])
    using possh x b sizes by simp_all
qed

subsection \<open>The claims about the forward pass\<close>

text \<open>
  Claim C5, as amended.  For a module the constructor has built from a configuration with
  positive \<open>seq_len\<close>, \<open>pred_len\<close> and \<open>enc_in\<close>, an even positive \<open>d_model\<close>, and \<open>seg_len\<close>
  dividing \<open>seq_len\<close> and \<open>pred_len\<close>, the forward pass on every input of shape
  \<open>[batch, seq_len, enc_in]\<close> (an empty batch included) returns a tensor of shape
  \<open>[batch, pred_len, enc_in]\<close>.
\<close>

theorem forward_output_shape:
  fixes x :: "('a::{zero,one,plus,minus,times,ord}) tensor"
  assumes "SegRNN_init cfg iv = Inr self"
    and "0 < seq_len cfg" "0 < pred_len cfg" "0 < enc_in cfg" "0 < d_model cfg"
      "even (d_model cfg)"
    and "seg_len cfg dvd seq_len cfg" "seg_len cfg dvd pred_len cfg"
    and "shape x = [b, seq_len cfg, enc_in cfg]"
  shows "\<exists>y. forward self msk x = Inr y \<and> shape y = [b, pred_len cfg, enc_in cfg]"
proof -
  have "forward self msk x = Inr (segment_forecaster self msk x)"
    using assms by (rule forward_exact)
  moreover have "shape (segment_forecaster self msk x) = [b, pred_len cfg, enc_in cfg]"
    using shape_segment_forecaster [OF assms(9)] SegRNN_init_fields [OF assms(1)] by simp
  ultimately show ?thesis by simp
qed

theorem forward_output_shape_witness:
  "map_sum id shape (forward (demo_model 4 2 2 2 2) demo_msk (demo_input [1, 4, 2]))
     = Inr [1, 2, 2]"
proof -
  have "\<exists>y. forward (demo_model 4 2 2 2 2) demo_msk (demo_input [1, 4, 2]) = Inr y
      \<and> shape y = [1, pred_len (demo_cfg 4 2 2 2 2), enc_in (demo_cfg 4 2 2 2 2)]"
    by (rule forward_output_shape [where iv = demo_iv and b = 1])
      (simp_all add: demo_model_init demo_cfg_fields demo_input_def)
  then show ?thesis by (auto simp: demo_cfg_fields)
qed

text \<open>
  The claim as stated (every input of that shape, whenever \<open>seg_len\<close> divides both lengths)
  fails for an odd \<open>d_model\<close>.  With \<open>d_model = 3\<close> each embedding table has
  \<open>d_model // 2 = 1\<close> column, their concatenation has 2 entries per position, and
  \<^verbatim>\<open>view(-1, 1, 3)\<close> of it raises.
\<close>

theorem forward_output_shape_odd_d_model_counterexample:
  "SegRNN_init (demo_cfg 1 1 1 3 1) demo_iv = Inr (demo_model 1 1 1 3 1)
   \<and> seg_len (demo_cfg 1 1 1 3 1) dvd seq_len (demo_cfg 1 1 1 3 1)
   \<and> seg_len (demo_cfg 1 1 1 3 1) dvd pred_len (demo_cfg 1 1 1 3 1)
   \<and> shape (demo_input [1, 1, 1])
       = [1, seq_len (demo_cfg 1 1 1 3 1), enc_in (demo_cfg 1 1 1 3 1)]
   \<and> forward (demo_model 1 1 1 3 1) demo_msk (demo_input [1, 1, 1]) = Inl RuntimeError"
proof -
  have "forward (demo_model 1 1 1 3 1) demo_msk (demo_input [1, 1, 1]) = Inl RuntimeError"
    by code_simp
  then show ?thesis by (simp add: demo_model_init demo_cfg_fields demo_input_def)
qed

text \<open>
  Claim C6, as amended.  For a module the constructor has built from a configuration with
  positive \<open>seq_len\<close>, \<open>pred_len\<close> and \<open>enc_in\<close>, an even positive \<open>d_model\<close>, and \<open>seg_len\<close>
  dividing \<open>seq_len\<close> and \<open>pred_len\<close>, the forward pass on an input of shape
  \<open>[batch, seq_len, enc_in]\<close> computes the segment-wise recurrent forecaster: for every batch
  entry and channel, the last value of the series is subtracted, the series is cut into
  \<open>seq_len // seg_len\<close> segments of length \<open>seg_len\<close>, every segment is embedded by the linear
  layer and ReLU into \<open>d_model\<close> dimensions, the GRU runs over the embeddings, and from its
  final state one further GRU step on the position code of each of the \<open>pred_len // seg_len\<close>
  output segments gives a state that dropout and the linear layer project to a predicted
  segment of length \<open>seg_len\<close>; the predicted segments are concatenated and the last value is
  added back.  The reshapes, permutations and repetitions of the batched code compute
  exactly the function \<open>segment_forecaster\<close> written series by series.
\<close>

theorem forward_is_segment_forecaster:
  fixes x :: "('a::{zero,one,plus,minus,times,ord}) tensor"
  assumes "SegRNN_init cfg iv = Inr self"
    and "0 < seq_len cfg" "0 < pred_len cfg" "0 < enc_in cfg" "0 < d_model cfg"
      "even (d_model cfg)"
    and "seg_len cfg dvd seq_len cfg" "seg_len cfg dvd pred_len cfg"
    and "shape x = [b, seq_len cfg, enc_in cfg]"
  shows "forward self msk x = Inr (segment_forecaster self msk x)"
  using assms by (rule forward_exact)

theorem forward_is_segment_forecaster_witness:
  "forward (demo_model 4 2 2 2 2) demo_msk (demo_input [1, 4, 2])
     = Inr \<lparr>shape = [1, 2, 2], data = [3, - 8, 6, 1]\<rparr>"
proof -
  have "forward (demo_model 4 2 2 2 2) demo_msk (demo_input [1, 4, 2])
      = Inr (segment_forecaster (demo_model 4 2 2 2 2) demo_msk (demo_input [1, 4, 2]))"
    by (rule forward_is_segment_forecaster
          [where iv = demo_iv and cfg = "demo_cfg 4 2 2 2 2" and b = 1])
      (simp_all add: demo_model_init demo_cfg_fields demo_input_def)
  moreover have "segment_forecaster (demo_model 4 2 2 2 2) demo_msk (demo_input [1, 4, 2])
      = \<lparr>shape = [1, 2, 2], data = [3, - 8, 6, 1]\<rparr>"
    by code_simp
  ultimately show ?thesis by simp
qed

text \<open>
  The claim as stated (for every configuration) fails where \<open>seg_len\<close> does not divide
  \<open>seq_len\<close>: with \<open>seq_len = 5\<close> and \<open>seg_len = 2\<close> the constructor sets \<open>seg_num_x = 2\<close>, but
  the forward pass does not cut the five values of the one series into two segments of
  length 2; \<^verbatim>\<open>reshape(-1, 2, 2)\<close> raises.
\<close>

theorem segment_forecaster_inexact_seq_len_counterexample:
  "SegRNN_init (demo_cfg 5 2 1 2 2) demo_iv = Inr (demo_model 5 2 1 2 2)
   \<and> seg_num_x (demo_model 5 2 1 2 2) = 2
   \<and> shape (demo_input [1, 5, 1])
       = [1, seq_len (demo_cfg 5 2 1 2 2), enc_in (demo_cfg 5 2 1 2 2)]
   \<and> forward (demo_model 5 2 1 2 2) demo_msk (demo_input [1, 5, 1]) = Inl RuntimeError"
proof -
  have "forward (demo_model 5 2 1 2 2) demo_msk (demo_input [1, 5, 1]) = Inl RuntimeError"
    by code_simp
  then show ?thesis
    by (simp add: demo_model_init demo_cfg_fields demo_input_def) (simp add: demo_model_def)
qed

text \<open>
  Claim C9, as amended.  The constructor computes both segment counts by integer division,
  and for a module built from a configuration with positive sizes and an even \<open>d_model\<close>,
  the forward pass on a non-empty input of shape \<open>[batch, seq_len, enc_in]\<close> returns its
  \<open>[batch, pred_len, enc_in]\<close> result exactly when \<open>seg_len\<close> divides both \<open>seq_len\<close> and
  \<open>pred_len\<close>.  When it does not, the forward pass either raises, or, which can happen
  only for a batch of size 1 and \<open>pred_len < seg_len\<close>, returns an empty tensor of shape
  \<open>[0, pred_len, enc_in]\<close>.
\<close>

theorem forward_needs_exact_segments:
  fixes x :: "('a::{zero,one,plus,minus,times,ord}) tensor"
  assumes "SegRNN_init cfg iv = Inr self"
    and "0 < seq_len cfg" "0 < pred_len cfg" "0 < enc_in cfg" "0 < d_model cfg"
      "even (d_model cfg)"
    and "shape x = [b, seq_len cfg, enc_in cfg]" "0 < b"
  shows "seg_num_x self = seq_len cfg div seg_len cfg
    \<and> seg_num_y self = pred_len cfg div seg_len cfg
    \<and> ((\<exists>y. forward self msk x = Inr y \<and> shape y = [b, pred_len cfg, enc_in cfg])
          \<longleftrightarrow> seg_len cfg dvd seq_len cfg \<and> seg_len cfg dvd pred_len cfg)
    \<and> (\<not> (seg_len cfg dvd seq_len cfg \<and> seg_len cfg dvd pred_len cfg)
          \<longrightarrow> (\<exists>e. forward self msk x = Inl e)
             \<or> (b = 1 \<and> pred_len cfg < seg_len cfg
                 \<and> (\<exists>y. forward self msk x = Inr y
                       \<and> shape y = [0, pred_len cfg, enc_in cfg])))"
proof -
  note f = SegRNN_init_fields [OF assms(1)]
  have r: "(seg_len cfg dvd seq_len cfg \<and> seg_len cfg dvd pred_len cfg
           \<and> shape y = [b, pred_len cfg, enc_in cfg])
      \<or> (pred_len cfg < seg_len cfg \<and> b = 1 \<and> shape y = [0, pred_len cfg, enc_in cfg])"
    if "forward self msk x = Inr y" for y
    using assms(1,3-8) that by (rule forward_result_shape)
  have a: "seg_len cfg dvd seq_len cfg \<and> seg_len cfg dvd pred_len cfg"
    if "forward self msk x = Inr y" "shape y = [b, pred_len cfg, enc_in cfg]" for y
    using r [OF that(1)] that(2) by auto
  have b: "\<exists>y. forward self msk x = Inr y \<and> shape y = [b, pred_len cfg, enc_in cfg]"
    if "seg_len cfg dvd seq_len cfg" "seg_len cfg dvd pred_len cfg"
  proof -
    have "forward self msk x = Inr (segment_forecaster self msk x)"
      using assms(1-6) that assms(7) by (rule forward_exact)
    moreover have "shape (segment_forecaster self msk x) = [b, pred_len cfg, enc_in cfg]"
      using shape_segment_forecaster [OF assms(7)] f by simp
    ultimately show ?thesis by simp
  qed
  have c: "(\<exists>e. forward self msk x = Inl e)
             \<or> (b = 1 \<and> pred_len cfg < seg_len cfg
                 \<and> (\<exists>y. forward self msk x = Inr y
                       \<and> shape y = [0, pred_len cfg, enc_in cfg]))"
    if n: "\<not> (seg_len cfg dvd seq_len cfg \<and> seg_len cfg dvd pred_len cfg)"
  proof (cases "forward self msk x")
    case (Inl e)
    then show ?thesis by simp
  next
    case (Inr y)
    from r [OF Inr] n show ?thesis using Inr by auto
  qed
  show ?thesis
    apply (intro conjI)
    using f(7) apply simp
    using f(8) apply simp
    using a b apply blast
    using c apply blast
    done
qed

theorem forward_needs_exact_segments_witness:
  "\<not> seg_len (demo_cfg 3 2 2 2 2) dvd seq_len (demo_cfg 3 2 2 2 2)
   \<and> \<not> (\<exists>y. forward (demo_model 3 2 2 2 2) demo_msk (demo_input [1, 3, 2]) = Inr y
          \<and> shape y = [1, 2, 2])
   \<and> (\<exists>e. forward (demo_model 3 2 2 2 2) demo_msk (demo_input [1, 3, 2]) = Inl e)"
  using forward_needs_exact_segments [of "demo_cfg 3 2 2 2 2" demo_iv "demo_model 3 2 2 2 2"
      "demo_input [1, 3, 2]" 1 demo_msk]
  by (simp add: demo_model_init demo_cfg_fields demo_input_def)

text \<open>
  The second case occurs: with \<open>pred_len = 1\<close> and \<open>seg_len = 2\<close> the decoder has
  \<open>seg_num_y = 0\<close> segments, every reshape fits, and the forward pass returns a tensor
  without entries.
\<close>

lemma forward_empty_forecast:
  "SegRNN_init (demo_cfg 4 1 2 2 2) demo_iv = Inr (demo_model 4 1 2 2 2)
   \<and> \<not> seg_len (demo_cfg 4 1 2 2 2) dvd pred_len (demo_cfg 4 1 2 2 2)
   \<and> forward (demo_model 4 1 2 2 2) demo_msk (demo_input [1, 4, 2])
       = Inr \<lparr>shape = [0, 1, 2], data = []\<rparr>"
proof -
  have "forward (demo_model 4 1 2 2 2) demo_msk (demo_input [1, 4, 2])
       = Inr \<lparr>shape = [0, 1, 2], data = []\<rparr>"
    by code_simp
  then show ?thesis by (simp add: demo_model_init demo_cfg_fields)
qed

text \<open>
  The claim as stated (the two reshapes are well defined only when the divisions are
  exact) fails: with \<open>seq_len = 3\<close>, \<open>seg_len = 2\<close> and two channels, the 6 entries of an
  input of batch size 1 do fit \<^verbatim>\<open>reshape(-1, 1, 2)\<close>, which returns three rows that mix
  the channels; the forward pass raises later, at the hidden-state check of the second GRU
  call.
\<close>

theorem reshape_without_exact_division_counterexample:
  "SegRNN_init (demo_cfg 3 2 2 2 2) demo_iv = Inr (demo_model 3 2 2 2 2)
   \<and> \<not> seg_len (demo_cfg 3 2 2 2 2) dvd seq_len (demo_cfg 3 2 2 2 2)
   \<and> map_sum id shape (input_segments (demo_model 3 2 2 2 2) (demo_input [1, 3, 2]))
       = Inr [3, 1, 2]
   \<and> forward (demo_model 3 2 2 2 2) demo_msk (demo_input [1, 3, 2]) = Inl RuntimeError"
proof -
  have "map_sum id shape (input_segments (demo_model 3 2 2 2 2) (demo_input [1, 3, 2]))
       = Inr [3, 1, 2]
   \<and> forward (demo_model 3 2 2 2 2) demo_msk (demo_input [1, 3, 2]) = Inl RuntimeError"
    by code_simp
  then show ?thesis by (simp add: demo_model_init demo_cfg_fields)
qed

end
